theory Spec2Isabelle
  imports Main "HOL-Library.Sublist"
begin

section \<open>The daemon's startup and shutdown choreography (cmd/yggd/main.go)\<close>

text \<open>
  The function assigned to \<^verbatim>\<open>app.Action\<close> creates four components, wires their signals,
  starts three goroutines and then blocks on the channel \<^verbatim>\<open>quit\<close>. It is modelled as an
  interleaving transition system: one program counter per goroutine, named after the source
  line it stands at, the shared variable \<^verbatim>\<open>err\<close>, the buffered channel \<^verbatim>\<open>quit\<close> and the two
  subscription channels the goroutines wait on. A schedule is a list of events; every event
  is one atomic step of one goroutine or of the environment. A step that is not enabled
  (a receive on an empty channel, a send on a full one) leaves the state unchanged.

  The components themselves (package yggdrasil) are not part of the file. What their
  functions return is a parameter of the model, the record \<open>env\<close>. Each of them is called at
  most once by main.go, so one result per function fixes a whole run. The model covers the
  daemon path of the Action (both generation flags off), from line 80 on. The goroutines
  may still take steps after the Action has returned, as they can until the process exits.
\<close>

subsection \<open>Data\<close>

text \<open>A Go \<^verbatim>\<open>error\<close> is \<open>error option\<close>: \<open>None\<close> is nil.\<close>

type_synonym error = string
type_synonym facts = string
type_synonym bytes = string

text \<open>The signals \<^verbatim>\<open>quit\<close> is registered for; SIGKILL is in the list but is never delivered.\<close>

datatype os_signal = SIGTERM | SIGINT

datatype signal_name =
    SignalProcessDie
  | SignalMessageRecv
  | SignalAssignmentCreate
  | SignalWorkComplete
  | SignalAssignmentReturn
  | SignalDispatcherListen
  | SignalProcessBootstrap

record env =
  ParseLevel :: "error option"
  NewProcessManager :: "error option"
  NewDispatcher :: "error option"
  NewMessageRouter :: "error option"
  NewPayloadProcessor :: "error option"
  LibexecDir :: string
  LongName :: string
  Join :: "string \<Rightarrow> string \<Rightarrow> string"
  BootstrapWorkers :: "string \<Rightarrow> error option"
  ListenAndServe :: "error option"
  ConnectClient :: "error option"
  GetCanonicalFacts :: "facts \<times> error option"
  Marshal :: "facts \<Rightarrow> bytes \<times> error option"
  Publish :: "string \<Rightarrow> bytes \<Rightarrow> error option"
  Subscribe :: "error option"
  KillAllWorkers :: "error option"

text \<open>
  What a run does is recorded in a trace, oldest action first. The number in
  \<open>Err_assigned\<close> and \<open>Quit_sent\<close> is the source line of the statement.
\<close>

datatype action =
    Connected signal_name
  | Handler_started signal_name
  | Published signal_name bool
  | Received signal_name
  | Call_MkdirAll string
  | Enter_BootstrapWorkers string
  | Leave_BootstrapWorkers "error option"
  | Enter_ListenAndServe
  | Leave_ListenAndServe "error option"
  | Call_ConnectClient "error option"
  | Call_GetCanonicalFacts facts "error option"
  | Call_Marshal facts bytes "error option"
  | Call_Publish string bytes "error option"
  | Call_Subscribe "error option"
  | Err_assigned nat "error option"
  | Quit_sent nat
  | Quit_notified os_signal
  | Quit_received os_signal
  | Call_KillAllWorkers "error option"
  | Action_returned "error option"

text \<open>
  Program counters. \<open>M111\<close> to \<open>M127\<close> are the five handler wirings, \<open>M132\<close>, \<open>M147\<close>
  and \<open>M160\<close> the three \<^verbatim>\<open>go\<close> statements. \<open>M_startup_failed\<close>: the Action has returned
  from one of the lines 82 to 107; \<open>M_returned\<close>: it has returned from the shutdown part,
  lines 195 to 202. A goroutine is \<open>idle\<close> before its \<^verbatim>\<open>go\<close> statement; \<open>P140_inside\<close> and
  \<open>D151_inside\<close> are the goroutines inside BootstrapWorkers and ListenAndServe, which
  publish signals before they return (ListenAndServe may never return: nothing forces
  the schedule to take that step).
\<close>

datatype main_pc =
    M80 | M87 | M90 | M95 | M100 | M105
  | M111 | M115 | M119 | M123 | M127
  | M131 | M132 | M147 | M159 | M160
  | M192 | M194 | M198
  | M_startup_failed | M_returned

datatype pm_pc = P_idle | P136 | P139 | P140 | P140_inside | P141 | P142 | P_end

datatype disp_pc = D_idle | D151 | D151_inside | D153 | D154 | D_end

datatype mr_pc =
    R_idle | R164
  | R166 | R167 | R168
  | R171 | R173 | R174
  | R176 | R178 | R179
  | R181 | R182 | R183
  | R186 | R187 | R188
  | R_end

text \<open>
  The state: the program counters, the shared variable \<^verbatim>\<open>err\<close>, the buffer of \<^verbatim>\<open>quit\<close>
  and whether \<^verbatim>\<open>signal.Notify\<close> has registered it, for each of the two subscription
  channels whether the subscription exists and how many values wait in it, the locals of
  the goroutines, the trace, and what the Action has returned (\<open>None\<close>: nothing yet).
\<close>

record state =
  main_pc :: main_pc
  pm_pc :: pm_pc
  disp_pc :: disp_pc
  mr_pc :: mr_pc
  err :: "error option"
  quit :: "os_signal list"
  notify :: bool
  listen_sub :: bool
  listen_chan :: nat
  boot_sub :: bool
  boot_chan :: nat
  pm_localErr :: "error option"
  disp_localErr :: "error option"
  mr_localErr :: "error option"
  mr_facts :: facts
  mr_data :: bytes
  trace :: "action list"
  ret :: "error option option"

definition init :: state where
  "init = \<lparr> main_pc = M80, pm_pc = P_idle, disp_pc = D_idle, mr_pc = R_idle,
            err = None, quit = [], notify = False,
            listen_sub = False, listen_chan = 0, boot_sub = False, boot_chan = 0,
            pm_localErr = None, disp_localErr = None, mr_localErr = None,
            mr_facts = [], mr_data = [],
            trace = [], ret = None \<rparr>"

subsection \<open>The channel quit\<close>

text \<open>\<^verbatim>\<open>quit := make(chan os.Signal, 1)\<close>: a buffer of one value.\<close>

definition quit_cap :: nat where
  "quit_cap = 1"

text \<open>
  \<^verbatim>\<open>quit <- syscall.SIGTERM\<close> in a goroutine blocks while the buffer is full: the step is
  not enabled then.
\<close>

definition send_quit :: "nat \<Rightarrow> state \<Rightarrow> state option" where
  "send_quit line s =
     (if length (quit s) < quit_cap
      then Some (s\<lparr>quit := quit s @ [SIGTERM], trace := trace s @ [Quit_sent line]\<rparr>)
      else None)"

text \<open>\<^verbatim>\<open>err = localErr\<close> in a goroutine: a plain write of the shared variable.\<close>

definition assign_err :: "nat \<Rightarrow> error option \<Rightarrow> state \<Rightarrow> state" where
  "assign_err line e s = s\<lparr>err := e, trace := trace s @ [Err_assigned line e]\<rparr>"

text \<open>
  The runtime delivers a signal registered with \<^verbatim>\<open>signal.Notify\<close> by a send that never
  blocks: the signal is dropped when the buffer is full. Before line 88 the channel is not
  registered.
\<close>

definition os_step :: "os_signal \<Rightarrow> state \<Rightarrow> state option" where
  "os_step sg s =
     (if notify s \<and> length (quit s) < quit_cap
      then Some (s\<lparr>quit := quit s @ [sg], trace := trace s @ [Quit_notified sg]\<rparr>)
      else None)"

subsection \<open>The main goroutine, lines 80 to 202\<close>

text \<open>
  A constructor that fails makes the Action return \<^verbatim>\<open>cli.NewExitError(err, 1)\<close>. The
  variable \<^verbatim>\<open>err\<close> of line 80 is the one every later \<^verbatim>\<open>:=\<close> of the function body assigns
  and the one the goroutines write.
\<close>

definition construct :: "error option \<Rightarrow> main_pc \<Rightarrow> state \<Rightarrow> state" where
  "construct r next s =
     (if r \<noteq> None
      then s\<lparr>err := r, ret := Some r, main_pc := M_startup_failed,
             trace := trace s @ [Action_returned r]\<rparr>
      else s\<lparr>err := r, main_pc := next\<rparr>)"

text \<open>\<^verbatim>\<open>sig := x.Connect(name); go y.Handle...(sig)\<close>, lines 111 to 128.\<close>

definition wire :: "signal_name \<Rightarrow> main_pc \<Rightarrow> state \<Rightarrow> state" where
  "wire name next s =
     s\<lparr>main_pc := next, trace := trace s @ [Connected name, Handler_started name]\<rparr>"

definition main_step :: "env \<Rightarrow> state \<Rightarrow> state option" where
  "main_step env s =
     (case main_pc s of
        M80 \<Rightarrow> Some (construct (ParseLevel env) M87 s)
      | M87 \<Rightarrow> Some (s\<lparr>quit := [], notify := True, main_pc := M90\<rparr>)
      | M90 \<Rightarrow> Some (construct (NewProcessManager env) M95 s)
      | M95 \<Rightarrow> Some (construct (NewDispatcher env) M100 s)
      | M100 \<Rightarrow> Some (construct (NewMessageRouter env) M105 s)
      | M105 \<Rightarrow> Some (construct (NewPayloadProcessor env) M111 s)
      | M111 \<Rightarrow> Some (wire SignalProcessDie M115 s)
      | M115 \<Rightarrow> Some (wire SignalMessageRecv M119 s)
      | M119 \<Rightarrow> Some (wire SignalAssignmentCreate M123 s)
      | M123 \<Rightarrow> Some (wire SignalWorkComplete M127 s)
      | M127 \<Rightarrow> Some (wire SignalAssignmentReturn M131 s)
      | M131 \<Rightarrow> Some (s\<lparr>listen_sub := True, main_pc := M132,
                         trace := trace s @ [Connected SignalDispatcherListen]\<rparr>)
      | M132 \<Rightarrow> Some (s\<lparr>pm_pc := P136, main_pc := M147\<rparr>)
      | M147 \<Rightarrow> Some (s\<lparr>disp_pc := D151, main_pc := M159\<rparr>)
      | M159 \<Rightarrow> Some (s\<lparr>boot_sub := True, main_pc := M160,
                         trace := trace s @ [Connected SignalProcessBootstrap]\<rparr>)
      | M160 \<Rightarrow> Some (s\<lparr>mr_pc := R164, main_pc := M192\<rparr>)
      | M192 \<Rightarrow>
          (case quit s of
             [] \<Rightarrow> None
           | sg # rest \<Rightarrow>
               Some (s\<lparr>quit := rest, main_pc := M194,
                       trace := trace s @ [Quit_received sg]\<rparr>))
      | M194 \<Rightarrow>
          (let r = KillAllWorkers env in
           if r \<noteq> None
           then Some (s\<lparr>ret := Some r, main_pc := M_returned,
                        trace := trace s @ [Call_KillAllWorkers r, Action_returned r]\<rparr>)
           else Some (s\<lparr>main_pc := M198, trace := trace s @ [Call_KillAllWorkers r]\<rparr>))
      | M198 \<Rightarrow>
          (if err s \<noteq> None
           then Some (s\<lparr>ret := Some (err s), main_pc := M_returned,
                        trace := trace s @ [Action_returned (err s)]\<rparr>)
           else Some (s\<lparr>ret := Some None, main_pc := M_returned,
                        trace := trace s @ [Action_returned None]\<rparr>))
      | M_startup_failed \<Rightarrow> None
      | M_returned \<Rightarrow> None)"

subsection \<open>The process manager goroutine, lines 132 to 144\<close>

text \<open>
  \<^verbatim>\<open>p := filepath.Join(yggdrasil.LibexecDir, yggdrasil.LongName)\<close>; the two constants and
  \<^verbatim>\<open>filepath.Join\<close> are parameters. The result of \<^verbatim>\<open>os.MkdirAll(p, 0755)\<close> is ignored by
  the source, so the call has no result in the model.
\<close>

definition worker_dir :: "env \<Rightarrow> string" where
  "worker_dir env = Join env (LibexecDir env) (LongName env)"

definition pm_step :: "env \<Rightarrow> state \<Rightarrow> state option" where
  "pm_step env s =
     (case pm_pc s of
        P_idle \<Rightarrow> None
      | P136 \<Rightarrow>
          (if 0 < listen_chan s
           then Some (s\<lparr>listen_chan := listen_chan s - 1, pm_pc := P139,
                        trace := trace s @ [Received SignalDispatcherListen]\<rparr>)
           else None)
      | P139 \<Rightarrow> Some (s\<lparr>pm_pc := P140, trace := trace s @ [Call_MkdirAll (worker_dir env)]\<rparr>)
      | P140 \<Rightarrow>
          Some (s\<lparr>pm_pc := P140_inside,
                  trace := trace s @ [Enter_BootstrapWorkers (worker_dir env)]\<rparr>)
      | P140_inside \<Rightarrow>
          (let r = BootstrapWorkers env (worker_dir env) in
           Some (s\<lparr>pm_localErr := r, pm_pc := (if r \<noteq> None then P141 else P_end),
                   trace := trace s @ [Leave_BootstrapWorkers r]\<rparr>))
      | P141 \<Rightarrow> Some ((assign_err 141 (pm_localErr s) s)\<lparr>pm_pc := P142\<rparr>)
      | P142 \<Rightarrow> map_option (\<lambda>t. t\<lparr>pm_pc := P_end\<rparr>) (send_quit 142 s)
      | P_end \<Rightarrow> None)"

subsection \<open>The dispatcher goroutine, lines 147 to 156\<close>

definition disp_step :: "env \<Rightarrow> state \<Rightarrow> state option" where
  "disp_step env s =
     (case disp_pc s of
        D_idle \<Rightarrow> None
      | D151 \<Rightarrow> Some (s\<lparr>disp_pc := D151_inside, trace := trace s @ [Enter_ListenAndServe]\<rparr>)
      | D151_inside \<Rightarrow>
          (let r = ListenAndServe env in
           Some (s\<lparr>disp_localErr := r, disp_pc := (if r \<noteq> None then D153 else D_end),
                   trace := trace s @ [Leave_ListenAndServe r]\<rparr>))
      | D153 \<Rightarrow> Some ((assign_err 153 (disp_localErr s) s)\<lparr>disp_pc := D154\<rparr>)
      | D154 \<Rightarrow> map_option (\<lambda>t. t\<lparr>disp_pc := D_end\<rparr>) (send_quit 154 s)
      | D_end \<Rightarrow> None)"

subsection \<open>The message router goroutine, lines 160 to 190\<close>

definition mr_step :: "env \<Rightarrow> state \<Rightarrow> state option" where
  "mr_step env s =
     (case mr_pc s of
        R_idle \<Rightarrow> None
      | R164 \<Rightarrow>
          (if 0 < boot_chan s
           then Some (s\<lparr>boot_chan := boot_chan s - 1, mr_pc := R166,
                        trace := trace s @ [Received SignalProcessBootstrap]\<rparr>)
           else None)
      | R166 \<Rightarrow>
          (let r = ConnectClient env in
           Some (s\<lparr>mr_localErr := r, mr_pc := (if r \<noteq> None then R167 else R171),
                   trace := trace s @ [Call_ConnectClient r]\<rparr>))
      | R167 \<Rightarrow> Some ((assign_err 167 (mr_localErr s) s)\<lparr>mr_pc := R168\<rparr>)
      | R168 \<Rightarrow> map_option (\<lambda>t. t\<lparr>mr_pc := R171\<rparr>) (send_quit 168 s)
      | R171 \<Rightarrow>
          (let (f, r) = GetCanonicalFacts env in
           Some (s\<lparr>mr_facts := f, mr_localErr := r,
                   mr_pc := (if r \<noteq> None then R173 else R176),
                   trace := trace s @ [Call_GetCanonicalFacts f r]\<rparr>))
      | R173 \<Rightarrow> Some ((assign_err 173 (mr_localErr s) s)\<lparr>mr_pc := R174\<rparr>)
      | R174 \<Rightarrow> map_option (\<lambda>t. t\<lparr>mr_pc := R176\<rparr>) (send_quit 174 s)
      | R176 \<Rightarrow>
          (let (d, r) = Marshal env (mr_facts s) in
           Some (s\<lparr>mr_data := d, mr_localErr := r,
                   mr_pc := (if r \<noteq> None then R178 else R181),
                   trace := trace s @ [Call_Marshal (mr_facts s) d r]\<rparr>))
      | R178 \<Rightarrow> Some ((assign_err 178 (mr_localErr s) s)\<lparr>mr_pc := R179\<rparr>)
      | R179 \<Rightarrow> map_option (\<lambda>t. t\<lparr>mr_pc := R181\<rparr>) (send_quit 179 s)
      | R181 \<Rightarrow>
          (let r = Publish env ''handshake'' (mr_data s) in
           Some (s\<lparr>mr_localErr := r, mr_pc := (if r \<noteq> None then R182 else R186),
                   trace := trace s @ [Call_Publish ''handshake'' (mr_data s) r]\<rparr>))
      | R182 \<Rightarrow> Some ((assign_err 182 (mr_localErr s) s)\<lparr>mr_pc := R183\<rparr>)
      | R183 \<Rightarrow> map_option (\<lambda>t. t\<lparr>mr_pc := R186\<rparr>) (send_quit 183 s)
      | R186 \<Rightarrow>
          (let r = Subscribe env in
           Some (s\<lparr>mr_localErr := r, mr_pc := (if r \<noteq> None then R187 else R_end),
                   trace := trace s @ [Call_Subscribe r]\<rparr>))
      | R187 \<Rightarrow> Some ((assign_err 187 (mr_localErr s) s)\<lparr>mr_pc := R188\<rparr>)
      | R188 \<Rightarrow> map_option (\<lambda>t. t\<lparr>mr_pc := R_end\<rparr>) (send_quit 188 s)
      | R_end \<Rightarrow> None)"

subsection \<open>The event bus, as far as the two gating signals need it\<close>

text \<open>
  Modelled from the spec: the bus and the places where the components publish are not in
  main.go. Section 3 of the spec: a value published while the signal has no subscriber is
  dropped, not buffered; a subscriber owns a channel of its own. Section 5, item 1: the
  dispatcher emits listen-ready from inside ListenAndServe, once its accept surface is ready.
  The model lets it publish any number of times while the dispatcher goroutine is inside
  the call. The flag in \<open>Published\<close> tells whether a subscriber existed. A subscription
  channel is never closed: the spec closes it at the teardown of the bus only, and main.go
  has none.
\<close>

definition publish_listen :: "state \<Rightarrow> state option" where
  "publish_listen s =
     (if disp_pc s = D151_inside
      then Some (s\<lparr>listen_chan := (if listen_sub s then listen_chan s + 1 else listen_chan s),
                   trace := trace s @ [Published SignalDispatcherListen (listen_sub s)]\<rparr>)
      else None)"

text \<open>
  Modelled from the spec: sections 2 and 5 make the process manager the publisher of the
  process-bootstrap signal, as part of bootstrapping the workers. The model lets it publish
  while the process manager goroutine is inside BootstrapWorkers.
\<close>

definition publish_bootstrap :: "state \<Rightarrow> state option" where
  "publish_bootstrap s =
     (if pm_pc s = P140_inside
      then Some (s\<lparr>boot_chan := (if boot_sub s then boot_chan s + 1 else boot_chan s),
                   trace := trace s @ [Published SignalProcessBootstrap (boot_sub s)]\<rparr>)
      else None)"

subsection \<open>Schedules and runs\<close>

datatype event =
    Main | PM | Disp | MR
  | OS os_signal
  | Publish_listen | Publish_bootstrap

fun step :: "env \<Rightarrow> event \<Rightarrow> state \<Rightarrow> state option" where
  "step env Main s = main_step env s"
| "step env PM s = pm_step env s"
| "step env Disp s = disp_step env s"
| "step env MR s = mr_step env s"
| "step env (OS sg) s = os_step sg s"
| "step env Publish_listen s = publish_listen s"
| "step env Publish_bootstrap s = publish_bootstrap s"

definition exec :: "env \<Rightarrow> state \<Rightarrow> event \<Rightarrow> state" where
  "exec env s ev = (case step env ev s of None \<Rightarrow> s | Some t \<Rightarrow> t)"

definition run_from :: "env \<Rightarrow> state \<Rightarrow> event list \<Rightarrow> state" where
  "run_from env s evs = foldl (exec env) s evs"

definition run :: "env \<Rightarrow> event list \<Rightarrow> state" where
  "run env evs = run_from env init evs"

text \<open>The exit status of the process: 0 when the Action returned nil, 1 otherwise.\<close>

definition exit_status :: "state \<Rightarrow> nat option" where
  "exit_status s = (case ret s of None \<Rightarrow> None | Some None \<Rightarrow> Some 0 | Some (Some e) \<Rightarrow> Some 1)"


subsection \<open>Reading a trace\<close>

text \<open>
  \<open>only_after P Q\<close> holds of a trace when no action satisfying \<open>Q\<close> occurs before the first
  action satisfying \<open>P\<close>.
\<close>

fun only_after :: "('a \<Rightarrow> bool) \<Rightarrow> ('a \<Rightarrow> bool) \<Rightarrow> 'a list \<Rightarrow> bool" where
  "only_after P Q [] = True"
| "only_after P Q (a # as) = (if P a then True else if Q a then False else only_after P Q as)"

fun starts_bootstrap :: "action \<Rightarrow> bool" where
  "starts_bootstrap (Call_MkdirAll p) = True"
| "starts_bootstrap (Enter_BootstrapWorkers p) = True"
| "starts_bootstrap _ = False"

fun enters_bootstrap :: "action \<Rightarrow> bool" where
  "enters_bootstrap (Enter_BootstrapWorkers p) = True"
| "enters_bootstrap _ = False"

fun broker_call :: "action \<Rightarrow> bool" where
  "broker_call (Call_ConnectClient r) = True"
| "broker_call (Call_Publish topic d r) = True"
| "broker_call (Call_Subscribe r) = True"
| "broker_call _ = False"

fun is_connect_client :: "action \<Rightarrow> bool" where
  "is_connect_client (Call_ConnectClient r) = True"
| "is_connect_client _ = False"

fun is_publish :: "action \<Rightarrow> bool" where
  "is_publish (Call_Publish topic d r) = True"
| "is_publish _ = False"

text \<open>A handshake the broker accepted: Publish returned nil.\<close>

fun is_published :: "action \<Rightarrow> bool" where
  "is_published (Call_Publish topic d r) = (r = None)"
| "is_published _ = False"

fun is_subscribe :: "action \<Rightarrow> bool" where
  "is_subscribe (Call_Subscribe r) = True"
| "is_subscribe _ = False"

fun is_delivery :: "action \<Rightarrow> bool" where
  "is_delivery (Quit_sent line) = True"
| "is_delivery (Quit_notified sg) = True"
| "is_delivery _ = False"

fun is_receive :: "action \<Rightarrow> bool" where
  "is_receive (Quit_received sg) = True"
| "is_receive _ = False"

fun is_kill :: "action \<Rightarrow> bool" where
  "is_kill (Call_KillAllWorkers r) = True"
| "is_kill _ = False"

fun is_return :: "action \<Rightarrow> bool" where
  "is_return (Action_returned r) = True"
| "is_return _ = False"

definition deliveries :: "action list \<Rightarrow> nat" where
  "deliveries l = length (filter is_delivery l)"

definition receives :: "action list \<Rightarrow> nat" where
  "receives l = length (filter is_receive l)"

definition kills :: "action list \<Rightarrow> nat" where
  "kills l = length (filter is_kill l)"

text \<open>The values the goroutines wrote to \<^verbatim>\<open>err\<close>, in order, and the last of them.\<close>

fun assigned :: "action list \<Rightarrow> error option list" where
  "assigned [] = []"
| "assigned (Err_assigned line e # l) = e # assigned l"
| "assigned (a # l) = assigned l"

definition last_assigned :: "action list \<Rightarrow> error option" where
  "last_assigned l = last (None # assigned l)"

definition first_assigned :: "action list \<Rightarrow> error option" where
  "first_assigned l = (case assigned l of [] \<Rightarrow> None | e # es \<Rightarrow> e)"

definition before_return :: "action list \<Rightarrow> action list" where
  "before_return l = takeWhile (\<lambda>a. \<not> is_return a) l"

subsection \<open>Who performs an action\<close>

datatype actor = By_main | By_pm | By_disp | By_mr | By_env

fun actor_of :: "action \<Rightarrow> actor" where
  "actor_of (Connected n) = By_main"
| "actor_of (Handler_started n) = By_main"
| "actor_of (Published n b) = By_env"
| "actor_of (Received n) = (if n = SignalDispatcherListen then By_pm else By_mr)"
| "actor_of (Call_MkdirAll p) = By_pm"
| "actor_of (Enter_BootstrapWorkers p) = By_pm"
| "actor_of (Leave_BootstrapWorkers r) = By_pm"
| "actor_of Enter_ListenAndServe = By_disp"
| "actor_of (Leave_ListenAndServe r) = By_disp"
| "actor_of (Call_ConnectClient r) = By_mr"
| "actor_of (Call_GetCanonicalFacts f r) = By_mr"
| "actor_of (Call_Marshal f d r) = By_mr"
| "actor_of (Call_Publish topic d r) = By_mr"
| "actor_of (Call_Subscribe r) = By_mr"
| "actor_of (Err_assigned line e) =
     (if line = 141 then By_pm else if line = 153 then By_disp else By_mr)"
| "actor_of (Quit_sent line) =
     (if line = 142 then By_pm else if line = 154 then By_disp else By_mr)"
| "actor_of (Quit_notified sg) = By_env"
| "actor_of (Quit_received sg) = By_main"
| "actor_of (Call_KillAllWorkers r) = By_main"
| "actor_of (Action_returned r) = By_main"

definition proj :: "actor \<Rightarrow> action list \<Rightarrow> action list" where
  "proj who l = filter (\<lambda>a. actor_of a = who) l"

subsection \<open>What each goroutine has done when it stands at a line\<close>

text \<open>The two statements of an error branch: \<^verbatim>\<open>err = localErr; quit <- syscall.SIGTERM\<close>.\<close>

definition fail_acts :: "nat \<Rightarrow> nat \<Rightarrow> error option \<Rightarrow> action list" where
  "fail_acts l1 l2 r = (if r \<noteq> None then [Err_assigned l1 r, Quit_sent l2] else [])"

definition bootstrap_result :: "env \<Rightarrow> error option" where
  "bootstrap_result env = BootstrapWorkers env (worker_dir env)"

definition pm_script :: "env \<Rightarrow> action list" where
  "pm_script env =
     [Received SignalDispatcherListen, Call_MkdirAll (worker_dir env),
      Enter_BootstrapWorkers (worker_dir env), Leave_BootstrapWorkers (bootstrap_result env)]
     @ fail_acts 141 142 (bootstrap_result env)"

fun pm_done :: "pm_pc \<Rightarrow> nat" where
  "pm_done P_idle = 0"
| "pm_done P136 = 0"
| "pm_done P139 = 1"
| "pm_done P140 = 2"
| "pm_done P140_inside = 3"
| "pm_done P141 = 4"
| "pm_done P142 = 5"
| "pm_done P_end = 6"

definition disp_script :: "env \<Rightarrow> action list" where
  "disp_script env =
     [Enter_ListenAndServe, Leave_ListenAndServe (ListenAndServe env)]
     @ fail_acts 153 154 (ListenAndServe env)"

fun disp_done :: "disp_pc \<Rightarrow> nat" where
  "disp_done D_idle = 0"
| "disp_done D151 = 0"
| "disp_done D151_inside = 1"
| "disp_done D153 = 2"
| "disp_done D154 = 3"
| "disp_done D_end = 4"

definition the_facts :: "env \<Rightarrow> facts" where
  "the_facts env = fst (GetCanonicalFacts env)"

definition the_data :: "env \<Rightarrow> bytes" where
  "the_data env = fst (Marshal env (the_facts env))"

definition facts_result :: "env \<Rightarrow> error option" where
  "facts_result env = snd (GetCanonicalFacts env)"

definition marshal_result :: "env \<Rightarrow> error option" where
  "marshal_result env = snd (Marshal env (the_facts env))"

definition publish_result :: "env \<Rightarrow> error option" where
  "publish_result env = Publish env ''handshake'' (the_data env)"

text \<open>
  Modelled from the spec: the message router is not in main.go. Section 4.3 of the spec:
  Publish fails with a PublishError if the client is not connected. For the one Publish of
  main.go: when ConnectClient returned an error, so does the Publish of the handshake.
\<close>

definition router_contract :: "env \<Rightarrow> bool" where
  "router_contract env \<longleftrightarrow> ConnectClient env = None \<or> publish_result env \<noteq> None"

definition mr_part1 :: "env \<Rightarrow> action list" where
  "mr_part1 env =
     [Received SignalProcessBootstrap, Call_ConnectClient (ConnectClient env)]"

definition mr_part2 :: "env \<Rightarrow> action list" where
  "mr_part2 env =
     mr_part1 env @ fail_acts 167 168 (ConnectClient env)
     @ [Call_GetCanonicalFacts (the_facts env) (facts_result env)]"

definition mr_part3 :: "env \<Rightarrow> action list" where
  "mr_part3 env =
     mr_part2 env @ fail_acts 173 174 (facts_result env)
     @ [Call_Marshal (the_facts env) (the_data env) (marshal_result env)]"

definition mr_part4 :: "env \<Rightarrow> action list" where
  "mr_part4 env =
     mr_part3 env @ fail_acts 178 179 (marshal_result env)
     @ [Call_Publish ''handshake'' (the_data env) (publish_result env)]"

definition mr_part5 :: "env \<Rightarrow> action list" where
  "mr_part5 env =
     mr_part4 env @ fail_acts 182 183 (publish_result env)
     @ [Call_Subscribe (Subscribe env)]"

text \<open>
  The whole body of the message router goroutine, as the source orders it: no error branch
  returns, so every call is followed by the next one.
\<close>

definition mr_script :: "env \<Rightarrow> action list" where
  "mr_script env = mr_part5 env @ fail_acts 187 188 (Subscribe env)"

fun mr_hist :: "env \<Rightarrow> mr_pc \<Rightarrow> action list" where
  "mr_hist env R_idle = []"
| "mr_hist env R164 = []"
| "mr_hist env R166 = [Received SignalProcessBootstrap]"
| "mr_hist env R167 = mr_part1 env"
| "mr_hist env R168 = mr_part1 env @ [Err_assigned 167 (ConnectClient env)]"
| "mr_hist env R171 = mr_part1 env @ fail_acts 167 168 (ConnectClient env)"
| "mr_hist env R173 = mr_part2 env"
| "mr_hist env R174 = mr_part2 env @ [Err_assigned 173 (facts_result env)]"
| "mr_hist env R176 = mr_part2 env @ fail_acts 173 174 (facts_result env)"
| "mr_hist env R178 = mr_part3 env"
| "mr_hist env R179 = mr_part3 env @ [Err_assigned 178 (marshal_result env)]"
| "mr_hist env R181 = mr_part3 env @ fail_acts 178 179 (marshal_result env)"
| "mr_hist env R182 = mr_part4 env"
| "mr_hist env R183 = mr_part4 env @ [Err_assigned 182 (publish_result env)]"
| "mr_hist env R186 = mr_part4 env @ fail_acts 182 183 (publish_result env)"
| "mr_hist env R187 = mr_part5 env"
| "mr_hist env R188 = mr_part5 env @ [Err_assigned 187 (Subscribe env)]"
| "mr_hist env R_end = mr_script env"

text \<open>The value \<^verbatim>\<open>localErr\<close> holds in an error branch.\<close>

fun mr_pending :: "env \<Rightarrow> mr_pc \<Rightarrow> error option option" where
  "mr_pending env R167 = Some (ConnectClient env)"
| "mr_pending env R168 = Some (ConnectClient env)"
| "mr_pending env R173 = Some (facts_result env)"
| "mr_pending env R174 = Some (facts_result env)"
| "mr_pending env R178 = Some (marshal_result env)"
| "mr_pending env R179 = Some (marshal_result env)"
| "mr_pending env R182 = Some (publish_result env)"
| "mr_pending env R183 = Some (publish_result env)"
| "mr_pending env R187 = Some (Subscribe env)"
| "mr_pending env R188 = Some (Subscribe env)"
| "mr_pending env _ = None"

fun mr_rank :: "mr_pc \<Rightarrow> nat" where
  "mr_rank R_idle = 0"
| "mr_rank R164 = 1"
| "mr_rank R166 = 2"
| "mr_rank R167 = 3"
| "mr_rank R168 = 4"
| "mr_rank R171 = 5"
| "mr_rank R173 = 6"
| "mr_rank R174 = 7"
| "mr_rank R176 = 8"
| "mr_rank R178 = 9"
| "mr_rank R179 = 10"
| "mr_rank R181 = 11"
| "mr_rank R182 = 12"
| "mr_rank R183 = 13"
| "mr_rank R186 = 14"
| "mr_rank R187 = 15"
| "mr_rank R188 = 16"
| "mr_rank R_end = 17"

fun main_rank :: "main_pc \<Rightarrow> nat" where
  "main_rank M80 = 0"
| "main_rank M87 = 1"
| "main_rank M90 = 2"
| "main_rank M95 = 3"
| "main_rank M100 = 4"
| "main_rank M105 = 5"
| "main_rank M111 = 6"
| "main_rank M115 = 7"
| "main_rank M119 = 8"
| "main_rank M123 = 9"
| "main_rank M127 = 10"
| "main_rank M131 = 11"
| "main_rank M132 = 12"
| "main_rank M147 = 13"
| "main_rank M159 = 14"
| "main_rank M160 = 15"
| "main_rank M192 = 16"
| "main_rank M194 = 17"
| "main_rank M198 = 18"
| "main_rank M_returned = 19"
| "main_rank M_startup_failed = 0"

subsection \<open>Invariants of every run\<close>

text \<open>A goroutine exists only after main has passed its \<^verbatim>\<open>go\<close> statement.\<close>

definition wf :: "state \<Rightarrow> bool" where
  "wf s \<longleftrightarrow>
     (pm_pc s \<noteq> P_idle \<longrightarrow> 13 \<le> main_rank (main_pc s)) \<and>
     (disp_pc s \<noteq> D_idle \<longrightarrow> 14 \<le> main_rank (main_pc s)) \<and>
     (mr_pc s \<noteq> R_idle \<longrightarrow> 16 \<le> main_rank (main_pc s)) \<and>
     (12 \<le> main_rank (main_pc s) \<longrightarrow> listen_sub s) \<and>
     (disp_pc s \<noteq> D_idle \<longrightarrow> listen_sub s) \<and>
     (2 \<le> main_rank (main_pc s) \<longrightarrow> notify s) \<and>
     (notify s \<longrightarrow> main_pc s \<noteq> M80 \<and> main_pc s \<noteq> M87) \<and>
     (\<not> notify s \<longrightarrow> quit s = [])"

definition pm_inv :: "env \<Rightarrow> state \<Rightarrow> bool" where
  "pm_inv env s \<longleftrightarrow>
     proj By_pm (trace s) = take (pm_done (pm_pc s)) (pm_script env) \<and>
     (pm_pc s = P141 \<or> pm_pc s = P142 \<longrightarrow>
        bootstrap_result env \<noteq> None \<and> pm_localErr s = bootstrap_result env)"

definition disp_inv :: "env \<Rightarrow> state \<Rightarrow> bool" where
  "disp_inv env s \<longleftrightarrow>
     proj By_disp (trace s) = take (disp_done (disp_pc s)) (disp_script env) \<and>
     (disp_pc s = D153 \<or> disp_pc s = D154 \<longrightarrow>
        ListenAndServe env \<noteq> None \<and> disp_localErr s = ListenAndServe env)"

definition mr_local_ok :: "env \<Rightarrow> mr_pc \<Rightarrow> error option \<Rightarrow> bool" where
  "mr_local_ok env pc e =
     (case mr_pending env pc of None \<Rightarrow> True | Some r \<Rightarrow> r \<noteq> None \<and> e = r)"

definition mr_inv :: "env \<Rightarrow> state \<Rightarrow> bool" where
  "mr_inv env s \<longleftrightarrow>
     proj By_mr (trace s) = mr_hist env (mr_pc s) \<and>
     mr_local_ok env (mr_pc s) (mr_localErr s) \<and>
     (6 \<le> mr_rank (mr_pc s) \<longrightarrow> mr_facts s = the_facts env) \<and>
     (9 \<le> mr_rank (mr_pc s) \<longrightarrow> mr_data s = the_data env)"

text \<open>
  A value waiting in a subscription channel was published while the subscriber existed, and
  the listen-ready signal is never published before main subscribed to it.
\<close>

definition chan_inv :: "state \<Rightarrow> bool" where
  "chan_inv s \<longleftrightarrow>
     only_after (\<lambda>a. a = Published SignalDispatcherListen True)
       (\<lambda>a. a = Received SignalDispatcherListen) (trace s) \<and>
     (0 < listen_chan s \<longrightarrow> Published SignalDispatcherListen True \<in> set (trace s)) \<and>
     only_after (\<lambda>a. a = Published SignalProcessBootstrap True)
       (\<lambda>a. a = Received SignalProcessBootstrap) (trace s) \<and>
     (0 < boot_chan s \<longrightarrow> Published SignalProcessBootstrap True \<in> set (trace s)) \<and>
     Published SignalDispatcherListen False \<notin> set (trace s)"

text \<open>
  The buffer of \<^verbatim>\<open>quit\<close> holds what was delivered and not yet received; main receives
  once, and calls KillAllWorkers once, after that.
\<close>

definition quit_inv :: "state \<Rightarrow> bool" where
  "quit_inv s \<longleftrightarrow>
     length (quit s) \<le> 1 \<and>
     deliveries (trace s) = length (quit s) + (if 17 \<le> main_rank (main_pc s) then 1 else 0) \<and>
     receives (trace s) = (if 17 \<le> main_rank (main_pc s) then 1 else 0) \<and>
     kills (trace s) = (if 18 \<le> main_rank (main_pc s) then 1 else 0)"

text \<open>
  Until the Action returns, \<^verbatim>\<open>err\<close> holds the value written last. What the Action
  returns after the shutdown is the error of KillAllWorkers, or else what \<^verbatim>\<open>err\<close> held
  when line 198 read it.
\<close>

definition reported :: "env \<Rightarrow> action list \<Rightarrow> error option" where
  "reported env l =
     (case KillAllWorkers env of
        Some e \<Rightarrow> Some e
      | None \<Rightarrow> last_assigned (before_return l))"

definition err_inv :: "env \<Rightarrow> state \<Rightarrow> bool" where
  "err_inv env s \<longleftrightarrow>
     (6 \<le> main_rank (main_pc s) \<and> main_rank (main_pc s) \<le> 18 \<longrightarrow>
        err s = last_assigned (trace s) \<and> \<not> list_ex is_return (trace s)) \<and>
     (main_rank (main_pc s) \<le> 5 \<and> main_pc s \<noteq> M_startup_failed \<longrightarrow>
        assigned (trace s) = [] \<and> \<not> list_ex is_return (trace s)) \<and>
     (main_pc s = M198 \<longrightarrow> KillAllWorkers env = None) \<and>
     (main_pc s = M_returned \<longrightarrow>
        list_ex is_return (trace s) \<and>
        ret s = Some (reported env (trace s)))"

text \<open>
  Every value a goroutine writes to \<^verbatim>\<open>err\<close> is a non-nil error, and a goroutine sends on
  \<^verbatim>\<open>quit\<close> only after it has written \<^verbatim>\<open>err\<close>.
\<close>

fun is_sent :: "action \<Rightarrow> bool" where
  "is_sent (Quit_sent line) = True"
| "is_sent _ = False"

fun is_assign :: "action \<Rightarrow> bool" where
  "is_assign (Err_assigned line e) = True"
| "is_assign _ = False"

definition at_send :: "state \<Rightarrow> bool" where
  "at_send s \<longleftrightarrow>
     pm_pc s = P142 \<or> disp_pc s = D154 \<or>
     mr_pc s = R168 \<or> mr_pc s = R174 \<or> mr_pc s = R179 \<or> mr_pc s = R183 \<or> mr_pc s = R188"

definition sent_inv :: "state \<Rightarrow> bool" where
  "sent_inv s \<longleftrightarrow>
     list_all (\<lambda>e. e \<noteq> None) (assigned (trace s)) \<and>
     only_after is_assign is_sent (trace s) \<and>
     (at_send s \<longrightarrow> assigned (trace s) \<noteq> [])"

definition inv :: "env \<Rightarrow> state \<Rightarrow> bool" where
  "inv env s \<longleftrightarrow>
     wf s \<and> pm_inv env s \<and> disp_inv env s \<and> mr_inv env s \<and>
     chan_inv s \<and> quit_inv s \<and> err_inv env s \<and> sent_inv s"

text \<open>Once a termination request is pending or taken, main only has to be scheduled.\<close>

definition shutdown_due :: "state \<Rightarrow> bool" where
  "shutdown_due s \<longleftrightarrow>
     6 \<le> main_rank (main_pc s) \<and> (quit s \<noteq> [] \<or> 17 \<le> main_rank (main_pc s))"

subsection \<open>A send that cannot complete\<close>

text \<open>
  A goroutine stands at the send of the given line while the buffer of \<^verbatim>\<open>quit\<close> holds a
  value: its step is not enabled.
\<close>

definition blocked_at :: "nat \<Rightarrow> state \<Rightarrow> bool" where
  "blocked_at line s \<longleftrightarrow>
     quit s \<noteq> [] \<and>
     (line = 142 \<and> pm_pc s = P142 \<or> line = 154 \<and> disp_pc s = D154 \<or>
      line = 168 \<and> mr_pc s = R168 \<or> line = 174 \<and> mr_pc s = R174 \<or>
      line = 179 \<and> mr_pc s = R179 \<or> line = 183 \<and> mr_pc s = R183 \<or>
      line = 188 \<and> mr_pc s = R188)"

text \<open>
  What follows an error of the goroutine \<open>g\<close> whose error branch sends at \<open>line\<close>: after two
  more steps of \<open>g\<close> the request is sent, or \<open>g\<close> is blocked in the send behind an earlier
  request; and five steps of main later KillAllWorkers has been called, once.
\<close>

definition answered :: "env \<Rightarrow> event list \<Rightarrow> event \<Rightarrow> nat \<Rightarrow> bool" where
  "answered env evs g line \<longleftrightarrow>
     (Quit_sent line \<in> set (trace (run env (evs @ [g, g]))) \<or>
      blocked_at line (run env (evs @ [g, g]))) \<and>
     kills (trace (run env (evs @ [g, g] @ replicate 5 Main))) = 1"

fun is_bootstrap_published :: "action \<Rightarrow> bool" where
  "is_bootstrap_published (Published n b) = (n = SignalProcessBootstrap)"
| "is_bootstrap_published _ = False"

text \<open>
  Once main has received from \<^verbatim>\<open>quit\<close> nobody empties the buffer again: a step from \<open>s\<close>
  to \<open>t\<close> leaves the buffer and every goroutine standing at a send where they are.
\<close>

definition frozen :: "state \<Rightarrow> state \<Rightarrow> bool" where
  "frozen s t \<longleftrightarrow>
     quit t = quit s \<and> 17 \<le> main_rank (main_pc t) \<and>
     (pm_pc s = P142 \<longrightarrow> pm_pc t = P142) \<and>
     (disp_pc s = D154 \<longrightarrow> disp_pc t = D154) \<and>
     (mr_pc s = R168 \<longrightarrow> mr_pc t = R168) \<and> (mr_pc s = R174 \<longrightarrow> mr_pc t = R174) \<and>
     (mr_pc s = R179 \<longrightarrow> mr_pc t = R179) \<and> (mr_pc s = R183 \<longrightarrow> mr_pc t = R183) \<and>
     (mr_pc s = R188 \<longrightarrow> mr_pc t = R188)"

text \<open>
  The message router goroutine waits at line 164, its channel is empty, and the process
  manager goroutine, the only publisher of process-bootstrap, has ended.
\<close>

definition starved :: "state \<Rightarrow> bool" where
  "starved s \<longleftrightarrow>
     16 \<le> main_rank (main_pc s) \<and> pm_pc s = P_end \<and> boot_chan s = 0 \<and> mr_pc s = R164"

subsection \<open>Concrete environments and schedules\<close>

text \<open>An environment in which every call succeeds, and the sixteen steps of main up to line 192.\<close>

definition env_ok :: env where
  "env_ok = \<lparr> ParseLevel = None, NewProcessManager = None, NewDispatcher = None,
       NewMessageRouter = None, NewPayloadProcessor = None,
       LibexecDir = ''/usr/libexec'', LongName = ''yggdrasil'',
       Join = (\<lambda>a b. a @ ''/'' @ b),
       BootstrapWorkers = (\<lambda>p. None), ListenAndServe = None, ConnectClient = None,
       GetCanonicalFacts = (''facts'', None), Marshal = (\<lambda>f. (''<'' @ f @ ''>'', None)),
       Publish = (\<lambda>topic d. None), Subscribe = None, KillAllWorkers = None \<rparr>"

definition startup :: "event list" where
  "startup = replicate 16 Main"

text \<open>The dispatcher listens and signals, the process manager wakes up and creates the directory.\<close>

definition until_mkdir :: "event list" where
  "until_mkdir = startup @ [Disp, Publish_listen, PM, PM]"

text \<open>... and bootstraps the workers, which publishes process-bootstrap.\<close>

definition until_bootstrap :: "event list" where
  "until_bootstrap = until_mkdir @ [PM, Publish_bootstrap, PM]"

text \<open>The message router goroutine wakes up and runs its five calls.\<close>

definition until_subscribed :: "event list" where
  "until_subscribed = until_bootstrap @ [MR, MR, MR, MR, MR, MR]"

text \<open>
  ListenAndServe fails after the listen-ready signal while the operator interrupts the
  daemon: the signal fills the buffer, main takes it, then the send of line 154 completes.
\<close>

definition env_listen_fails :: env where
  "env_listen_fails = env_ok\<lparr>ListenAndServe := Some ''accept failed''\<rparr>"

definition signal_and_error :: "event list" where
  "signal_and_error = startup @ [Disp, Publish_listen, Disp, Disp, OS SIGINT, Disp, Main, Disp]"

text \<open>
  ConnectClient fails and every later call returns nil: an environment that only serves to
  follow the control flow behind the error branch of line 166.
\<close>

definition env_connect_fails :: env where
  "env_connect_fails = env_ok\<lparr>ConnectClient := Some ''connection refused''\<rparr>"

definition until_handshake :: "event list" where
  "until_handshake = until_bootstrap @ [MR, MR, MR, MR, MR, MR, MR]"

text \<open>
  The broker is down: ConnectClient, Publish and Subscribe fail. Main takes the first
  request while the goroutine goes on.
\<close>

definition env_broker_down :: env where
  "env_broker_down =
     env_ok\<lparr>ConnectClient := Some ''connection refused'',
            Publish := (\<lambda>topic d. Some ''not connected''),
            Subscribe := Some ''not connected''\<rparr>"

definition broker_down_run :: "event list" where
  "broker_down_run =
     until_bootstrap @ [MR, MR, MR, MR, Main, MR, MR, MR, MR, MR, MR, MR, MR, Main, Main]"

text \<open>
  The operator interrupts the daemon twice during startup: main takes the first signal, the
  second one stays in the buffer. Then the broker refuses the connection.
\<close>

definition interrupted_twice :: "event list" where
  "interrupted_twice =
     startup @ [OS SIGINT, Main, OS SIGINT, Disp, Publish_listen, PM, PM, PM,
                Publish_bootstrap, PM, MR, MR, MR, MR, Main, Main, MR]"

text \<open>
  ListenAndServe fails after the listen-ready signal, then BootstrapWorkers fails: both
  goroutines write \<^verbatim>\<open>err\<close> before main reads it.
\<close>

definition env_two_failures :: env where
  "env_two_failures =
     env_ok\<lparr>ListenAndServe := Some ''accept failed'',
            BootstrapWorkers := (\<lambda>p. Some ''worker failed'')\<rparr>"

definition two_failures_pending :: "event list" where
  "two_failures_pending =
     startup @ [Disp, Publish_listen, PM, PM, PM, Disp, Disp, Disp, PM, PM, PM,
                Main, Main]"

definition two_failures_run :: "event list" where
  "two_failures_run = two_failures_pending @ [Main]"

text \<open>
  BootstrapWorkers fails after it has published process-bootstrap, then the broker refuses
  the connection.
\<close>

definition env_bootstrap_and_connect_fail :: env where
  "env_bootstrap_and_connect_fail =
     env_ok\<lparr>BootstrapWorkers := (\<lambda>p. Some ''worker failed''),
            ConnectClient := Some ''connection refused''\<rparr>"

definition bootstrap_and_connect_run :: "event list" where
  "bootstrap_and_connect_run =
     until_bootstrap @ [PM, PM, MR, MR, MR, Main, Main, Main]"

text \<open>An interrupt is the only reason of the shutdown.\<close>

definition clean_stop :: "event list" where
  "clean_stop = until_subscribed @ [OS SIGTERM, Main, Main, Main]"

text \<open>
  The race of line 159: the dispatcher and the process manager goroutines, started at
  lines 132 and 147, run before main reaches the Connect of line 159.
\<close>

definition race_run :: "event list" where
  "race_run =
     replicate 14 Main @ [Disp, Publish_listen, PM, PM, PM, Publish_bootstrap, PM]
     @ [Main, Main, MR]"

text \<open>
  The client connects, but no facts are obtained: GetCanonicalFacts returns no snapshot
  (the empty value) and an error, and json.Marshal turns the missing snapshot into "null".
\<close>

definition env_facts_fail :: env where
  "env_facts_fail =
     env_ok\<lparr>GetCanonicalFacts := ([], Some ''no facts''),
            Marshal := (\<lambda>f. if f = [] then (''null'', None) else (''<'' @ f @ ''>'', None))\<rparr>"

text \<open>The client connects and the facts are obtained, but json.Marshal fails and returns no bytes.\<close>

definition env_marshal_fails :: env where
  "env_marshal_fails = env_ok\<lparr>Marshal := (\<lambda>f. ([], Some ''unsupported type''))\<rparr>"


section \<open>Proofs\<close>

subsection \<open>Runs and traces\<close>

lemma run_snoc: "run env (evs @ [ev]) = exec env (run env evs) ev"
  by (simp add: run_def run_from_def)

lemma run_append: "run env (xs @ ys) = run_from env (run env xs) ys"
  by (simp add: run_def run_from_def)

lemma optionE: "(case x of None \<Rightarrow> True | Some t \<Rightarrow> P t) \<Longrightarrow> x = Some t \<Longrightarrow> P t"
  by simp

lemma run_invariant:
  assumes "I init"
    and "\<And>s ev. I s \<Longrightarrow> (case step env ev s of None \<Rightarrow> True | Some t \<Rightarrow> I t)"
  shows "I (run env evs)"
proof (induction evs rule: rev_induct)
  case Nil
  show ?case using assms(1) by (simp add: run_def run_from_def)
next
  case (snoc ev evs)
  show ?case
    using snoc assms(2)[of "run env evs" ev]
    by (cases "step env ev (run env evs)") (simp_all add: run_snoc exec_def)
qed

lemma deliveries_simps [simp]:
  "deliveries [] = 0"
  "deliveries (a # l) = (if is_delivery a then Suc (deliveries l) else deliveries l)"
  "deliveries (l @ m) = deliveries l + deliveries m"
  by (simp_all add: deliveries_def)

lemma receives_simps [simp]:
  "receives [] = 0"
  "receives (a # l) = (if is_receive a then Suc (receives l) else receives l)"
  "receives (l @ m) = receives l + receives m"
  by (simp_all add: receives_def)

lemma kills_simps [simp]:
  "kills [] = 0"
  "kills (a # l) = (if is_kill a then Suc (kills l) else kills l)"
  "kills (l @ m) = kills l + kills m"
  by (simp_all add: kills_def)

lemma assigned_append [simp]: "assigned (l @ m) = assigned l @ assigned m"
  by (induction l rule: assigned.induct) simp_all

lemma proj_simps [simp]:
  "proj who [] = []"
  "proj who (a # l) = (if actor_of a = who then a # proj who l else proj who l)"
  "proj who (l @ m) = proj who l @ proj who m"
  by (simp_all add: proj_def)

lemma only_after_append:
  "only_after P Q (l @ m) \<longleftrightarrow> only_after P Q l \<and> ((\<exists>x\<in>set l. P x) \<or> only_after P Q m)"
  by (induction l) auto

lemma only_after_filter:
  "(\<And>a. P a \<or> Q a \<Longrightarrow> f a) \<Longrightarrow> only_after P Q (filter f l) = only_after P Q l"
  by (induction l) auto

lemma is_assign_assigned: "(\<exists>x\<in>set l. is_assign x) \<longleftrightarrow> assigned l \<noteq> []"
  by (induction l rule: assigned.induct) simp_all

lemma before_return_append:
  "before_return (l @ m) = (if list_ex is_return l then before_return l else l @ before_return m)"
  by (induction l) (simp_all add: before_return_def)

lemma before_return_simps [simp]:
  "before_return [] = []"
  "before_return (a # l) = (if is_return a then [] else a # before_return l)"
  by (simp_all add: before_return_def)

lemma last_assigned_snoc:
  "last_assigned (l @ m) = (if assigned m = [] then last_assigned l else last (assigned m))"
  by (simp add: last_assigned_def)

lemmas main_defs = main_step_def construct_def wire_def Let_def
lemmas pm_defs = pm_step_def assign_err_def send_quit_def quit_cap_def Let_def
lemmas disp_defs = disp_step_def assign_err_def send_quit_def quit_cap_def Let_def
lemmas mr_defs = mr_step_def assign_err_def send_quit_def quit_cap_def Let_def
lemmas env_defs = os_step_def publish_listen_def publish_bootstrap_def quit_cap_def

subsection \<open>Goroutines start after their go statement\<close>

lemma wf_init: "wf init"
  by (simp add: wf_def init_def)

lemma wf_step:
  assumes "wf s"
  shows "case step env ev s of None \<Rightarrow> True | Some t \<Rightarrow> wf t"
proof (cases ev)
  case Main
  show ?thesis unfolding Main step.simps using assms
    by (cases "main_pc s"; simp add: main_defs wf_def split: list.splits)
next
  case PM
  show ?thesis unfolding PM step.simps using assms
    by (cases "pm_pc s"; simp add: pm_defs wf_def)
next
  case Disp
  show ?thesis unfolding Disp step.simps using assms
    by (cases "disp_pc s"; simp add: disp_defs wf_def)
next
  case MR
  show ?thesis unfolding MR step.simps using assms
    by (cases "mr_pc s"; simp add: mr_defs wf_def split: prod.splits)
next
  case (OS sg)
  show ?thesis unfolding OS step.simps using assms
    by (simp add: env_defs wf_def)
next
  case Publish_listen
  show ?thesis unfolding Publish_listen step.simps using assms
    by (simp add: env_defs wf_def)
next
  case Publish_bootstrap
  show ?thesis unfolding Publish_bootstrap step.simps using assms
    by (simp add: env_defs wf_def)
qed


subsection \<open>The goroutines follow their scripts\<close>

lemma pm_inv_init: "pm_inv env init"
  by (simp add: pm_inv_def init_def)

lemma pm_inv_step:
  assumes "pm_inv env s" and "wf s"
  shows "case step env ev s of None \<Rightarrow> True | Some t \<Rightarrow> pm_inv env t"
proof (cases ev)
  case Main
  show ?thesis unfolding Main step.simps using assms
    by (cases "main_pc s"; simp add: main_defs pm_inv_def wf_def split: list.splits)
next
  case PM
  show ?thesis unfolding PM step.simps using assms(1)
    by (cases "pm_pc s";
        simp add: pm_defs pm_inv_def pm_script_def fail_acts_def bootstrap_result_def)
next
  case Disp
  show ?thesis unfolding Disp step.simps using assms(1)
    by (cases "disp_pc s"; simp add: disp_defs pm_inv_def)
next
  case MR
  show ?thesis unfolding MR step.simps using assms(1)
    by (cases "mr_pc s"; simp add: mr_defs pm_inv_def split: prod.splits)
next
  case (OS sg)
  show ?thesis unfolding OS step.simps using assms(1)
    by (simp add: env_defs pm_inv_def)
next
  case Publish_listen
  show ?thesis unfolding Publish_listen step.simps using assms(1)
    by (simp add: env_defs pm_inv_def)
next
  case Publish_bootstrap
  show ?thesis unfolding Publish_bootstrap step.simps using assms(1)
    by (simp add: env_defs pm_inv_def)
qed

lemma disp_inv_init: "disp_inv env init"
  by (simp add: disp_inv_def init_def)

lemma disp_inv_step:
  assumes "disp_inv env s" and "wf s"
  shows "case step env ev s of None \<Rightarrow> True | Some t \<Rightarrow> disp_inv env t"
proof (cases ev)
  case Main
  show ?thesis unfolding Main step.simps using assms
    by (cases "main_pc s"; simp add: main_defs disp_inv_def wf_def split: list.splits)
next
  case PM
  show ?thesis unfolding PM step.simps using assms(1)
    by (cases "pm_pc s"; simp add: pm_defs disp_inv_def)
next
  case Disp
  show ?thesis unfolding Disp step.simps using assms(1)
    by (cases "disp_pc s"; simp add: disp_defs disp_inv_def disp_script_def fail_acts_def)
next
  case MR
  show ?thesis unfolding MR step.simps using assms(1)
    by (cases "mr_pc s"; simp add: mr_defs disp_inv_def split: prod.splits)
next
  case (OS sg)
  show ?thesis unfolding OS step.simps using assms(1)
    by (simp add: env_defs disp_inv_def)
next
  case Publish_listen
  show ?thesis unfolding Publish_listen step.simps using assms(1)
    by (simp add: env_defs disp_inv_def)
next
  case Publish_bootstrap
  show ?thesis unfolding Publish_bootstrap step.simps using assms(1)
    by (simp add: env_defs disp_inv_def)
qed

lemma mr_inv_init: "mr_inv env init"
  by (simp add: mr_inv_def mr_local_ok_def init_def)

lemmas mr_results =
  the_facts_def the_data_def facts_result_def marshal_result_def publish_result_def

lemmas mr_parts =
  mr_script_def mr_part5_def mr_part4_def mr_part3_def mr_part2_def mr_part1_def fail_acts_def

lemma mr_inv_step:
  assumes "mr_inv env s" and "wf s"
  shows "case step env ev s of None \<Rightarrow> True | Some t \<Rightarrow> mr_inv env t"
proof (cases ev)
  case Main
  show ?thesis unfolding Main step.simps using assms
    by (cases "main_pc s";
        simp add: main_defs mr_inv_def mr_local_ok_def wf_def split: list.splits)
next
  case PM
  show ?thesis unfolding PM step.simps using assms(1)
    by (cases "pm_pc s"; simp add: pm_defs mr_inv_def)
next
  case Disp
  show ?thesis unfolding Disp step.simps using assms(1)
    by (cases "disp_pc s"; simp add: disp_defs mr_inv_def)
next
  case MR
  show ?thesis unfolding MR step.simps using assms(1)
    by (cases "mr_pc s";
        simp add: mr_defs mr_inv_def mr_local_ok_def mr_results mr_parts split: prod.splits)
next
  case (OS sg)
  show ?thesis unfolding OS step.simps using assms(1)
    by (simp add: env_defs mr_inv_def)
next
  case Publish_listen
  show ?thesis unfolding Publish_listen step.simps using assms(1)
    by (simp add: env_defs mr_inv_def)
next
  case Publish_bootstrap
  show ?thesis unfolding Publish_bootstrap step.simps using assms(1)
    by (simp add: env_defs mr_inv_def)
qed


subsection \<open>Channels, the shared error and the return value\<close>

lemma chan_inv_init: "chan_inv init"
  by (simp add: chan_inv_def init_def)

lemma chan_inv_step:
  assumes "chan_inv s" and "wf s"
  shows "case step env ev s of None \<Rightarrow> True | Some t \<Rightarrow> chan_inv t"
proof (cases ev)
  case Main
  show ?thesis unfolding Main step.simps using assms
    by (cases "main_pc s"; simp add: main_defs chan_inv_def wf_def only_after_append  split: list.splits)
next
  case PM
  show ?thesis unfolding PM step.simps using assms
    by (cases "pm_pc s"; simp add: pm_defs chan_inv_def wf_def only_after_append )
next
  case Disp
  show ?thesis unfolding Disp step.simps using assms
    by (cases "disp_pc s"; simp add: disp_defs chan_inv_def wf_def only_after_append )
next
  case MR
  show ?thesis unfolding MR step.simps using assms
    by (cases "mr_pc s"; simp add: mr_defs chan_inv_def wf_def only_after_append  split: prod.splits)
next
  case (OS sg)
  show ?thesis unfolding OS step.simps using assms
    by (simp add: env_defs chan_inv_def wf_def only_after_append )
next
  case Publish_listen
  show ?thesis unfolding Publish_listen step.simps using assms
    by (cases "disp_pc s = D151_inside"; simp add: env_defs chan_inv_def wf_def only_after_append )
next
  case Publish_bootstrap
  show ?thesis unfolding Publish_bootstrap step.simps using assms
    by (simp add: env_defs chan_inv_def wf_def only_after_append )
qed

lemma quit_inv_init: "quit_inv init"
  by (simp add: quit_inv_def init_def)

lemma quit_inv_step:
  assumes "quit_inv s" and "wf s"
  shows "case step env ev s of None \<Rightarrow> True | Some t \<Rightarrow> quit_inv t"
proof (cases ev)
  case Main
  show ?thesis unfolding Main step.simps using assms
    by (cases "main_pc s"; cases "quit s"; simp add: main_defs quit_inv_def wf_def  split: list.splits)
next
  case PM
  show ?thesis unfolding PM step.simps using assms
    by (cases "pm_pc s"; simp add: pm_defs quit_inv_def wf_def )
next
  case Disp
  show ?thesis unfolding Disp step.simps using assms
    by (cases "disp_pc s"; simp add: disp_defs quit_inv_def wf_def )
next
  case MR
  show ?thesis unfolding MR step.simps using assms
    by (cases "mr_pc s"; simp add: mr_defs quit_inv_def wf_def  split: prod.splits)
next
  case (OS sg)
  show ?thesis unfolding OS step.simps using assms
    by (simp add: env_defs quit_inv_def wf_def )
next
  case Publish_listen
  show ?thesis unfolding Publish_listen step.simps using assms
    by (simp add: env_defs quit_inv_def wf_def )
next
  case Publish_bootstrap
  show ?thesis unfolding Publish_bootstrap step.simps using assms
    by (simp add: env_defs quit_inv_def wf_def )
qed

lemma last_assigned_none: "assigned l = [] \<Longrightarrow> last_assigned l = None"
  by (simp add: last_assigned_def)

lemma reported_append: "list_ex is_return l \<Longrightarrow> reported env (l @ m) = reported env l"
  by (cases "KillAllWorkers env"; simp add: reported_def before_return_append)

lemma reported_return:
  "\<not> list_ex is_return l \<Longrightarrow>
   reported env (l @ [Action_returned r]) =
     (case KillAllWorkers env of Some e \<Rightarrow> Some e | None \<Rightarrow> last_assigned l)"
  by (cases "KillAllWorkers env"; simp add: reported_def before_return_append)

lemma reported_kill_return:
  "\<not> list_ex is_return l \<Longrightarrow>
   reported env (l @ [Call_KillAllWorkers k, Action_returned r]) =
     (case KillAllWorkers env of Some e \<Rightarrow> Some e | None \<Rightarrow> last_assigned l)"
  by (cases "KillAllWorkers env";
      simp add: reported_def before_return_append last_assigned_snoc)

lemma err_inv_init: "err_inv env init"
  by (simp add: err_inv_def init_def)

lemma err_inv_step:
  assumes "err_inv env s" and "wf s"
  shows "case step env ev s of None \<Rightarrow> True | Some t \<Rightarrow> err_inv env t"
proof (cases ev)
  case Main
  show ?thesis unfolding Main step.simps using assms
    by (cases "main_pc s"; cases "KillAllWorkers env"; simp add: main_defs err_inv_def wf_def last_assigned_snoc last_assigned_none reported_append reported_return reported_kill_return  split: list.splits)
next
  case PM
  show ?thesis unfolding PM step.simps using assms
    by (cases "pm_pc s"; simp add: pm_defs err_inv_def wf_def last_assigned_snoc last_assigned_none reported_append reported_return reported_kill_return )
next
  case Disp
  show ?thesis unfolding Disp step.simps using assms
    by (cases "disp_pc s"; simp add: disp_defs err_inv_def wf_def last_assigned_snoc last_assigned_none reported_append reported_return reported_kill_return )
next
  case MR
  show ?thesis unfolding MR step.simps using assms
    by (cases "mr_pc s"; simp add: mr_defs err_inv_def wf_def last_assigned_snoc last_assigned_none reported_append reported_return reported_kill_return  split: prod.splits)
next
  case (OS sg)
  show ?thesis unfolding OS step.simps using assms
    by (simp add: env_defs err_inv_def wf_def last_assigned_snoc last_assigned_none reported_append reported_return reported_kill_return )
next
  case Publish_listen
  show ?thesis unfolding Publish_listen step.simps using assms
    by (simp add: env_defs err_inv_def wf_def last_assigned_snoc last_assigned_none reported_append reported_return reported_kill_return )
next
  case Publish_bootstrap
  show ?thesis unfolding Publish_bootstrap step.simps using assms
    by (simp add: env_defs err_inv_def wf_def last_assigned_snoc last_assigned_none reported_append reported_return reported_kill_return )
qed

lemma sent_inv_init: "sent_inv init"
  by (simp add: sent_inv_def at_send_def init_def)

lemma sent_inv_step:
  assumes "sent_inv s" and "pm_inv env s" and "disp_inv env s" and "mr_inv env s"
  shows "case step env ev s of None \<Rightarrow> True | Some t \<Rightarrow> sent_inv t"
proof (cases ev)
  case Main
  show ?thesis unfolding Main step.simps using assms
    by (cases "main_pc s"; simp add: main_defs sent_inv_def at_send_def only_after_append is_assign_assigned  split: list.splits)
next
  case PM
  show ?thesis unfolding PM step.simps using assms
    by (cases "pm_pc s"; simp add: pm_defs sent_inv_def at_send_def only_after_append is_assign_assigned pm_inv_def)
next
  case Disp
  show ?thesis unfolding Disp step.simps using assms
    by (cases "disp_pc s"; simp add: disp_defs sent_inv_def at_send_def only_after_append is_assign_assigned disp_inv_def)
next
  case MR
  show ?thesis unfolding MR step.simps using assms
    by (cases "mr_pc s"; simp add: mr_defs sent_inv_def at_send_def only_after_append is_assign_assigned mr_inv_def mr_local_ok_def split: prod.splits)
next
  case (OS sg)
  show ?thesis unfolding OS step.simps using assms
    by (simp add: env_defs sent_inv_def at_send_def only_after_append is_assign_assigned )
next
  case Publish_listen
  show ?thesis unfolding Publish_listen step.simps using assms
    by (simp add: env_defs sent_inv_def at_send_def only_after_append is_assign_assigned )
next
  case Publish_bootstrap
  show ?thesis unfolding Publish_bootstrap step.simps using assms
    by (simp add: env_defs sent_inv_def at_send_def only_after_append is_assign_assigned )
qed

lemma inv_init: "inv env init"
  by (simp add: inv_def wf_init pm_inv_init disp_inv_init mr_inv_init chan_inv_init
        quit_inv_init err_inv_init sent_inv_init)

lemma inv_step:
  assumes "inv env s"
  shows "case step env ev s of None \<Rightarrow> True | Some t \<Rightarrow> inv env t"
proof (cases "step env ev s")
  case None
  then show ?thesis by simp
next
  case (Some t)
  have w: "wf s" and p: "pm_inv env s" and d: "disp_inv env s" and m: "mr_inv env s"
    and c: "chan_inv s" and q: "quit_inv s" and e: "err_inv env s" and n: "sent_inv s"
    using assms by (simp_all add: inv_def)
  have "wf t" using optionE[OF wf_step[OF w] Some] .
  moreover have "pm_inv env t" using optionE[OF pm_inv_step[OF p w] Some] .
  moreover have "disp_inv env t" using optionE[OF disp_inv_step[OF d w] Some] .
  moreover have "mr_inv env t" using optionE[OF mr_inv_step[OF m w] Some] .
  moreover have "chan_inv t" using optionE[OF chan_inv_step[OF c w] Some] .
  moreover have "quit_inv t" using optionE[OF quit_inv_step[OF q w] Some] .
  moreover have "err_inv env t" using optionE[OF err_inv_step[OF e w] Some] .
  moreover have "sent_inv t" using optionE[OF sent_inv_step[OF n p d m] Some] .
  ultimately show ?thesis using Some by (simp add: inv_def)
qed

lemma inv_run: "inv env (run env evs)"
  by (rule run_invariant) (auto intro: inv_init inv_step)


subsection \<open>Consequences of the invariants\<close>

lemma only_after_proj:
  assumes "\<And>a. P a \<or> Q a \<Longrightarrow> actor_of a = who"
    and "only_after P Q (proj who l)"
  shows "only_after P Q l"
  using assms(2) only_after_filter[of P Q "\<lambda>a. actor_of a = who" l] assms(1)
  by (simp add: proj_def)

lemma mr_hist_head:
  "mr_hist env pc = [] \<or> (\<exists>l. mr_hist env pc = Received SignalProcessBootstrap # l)"
  by (cases pc; simp add: mr_parts)

lemma main_progress_step:
  assumes "shutdown_due s"
  shows "shutdown_due (exec env s Main) \<and>
         min 18 (Suc (main_rank (main_pc s))) \<le> main_rank (main_pc (exec env s Main))"
  using assms
  by (cases "main_pc s"; cases "quit s"; simp add: exec_def main_defs shutdown_due_def)

lemma main_progress:
  "shutdown_due s \<Longrightarrow>
   min 18 (main_rank (main_pc s) + n)
     \<le> main_rank (main_pc (run_from env s (replicate n Main)))"
proof (induction n arbitrary: s)
  case 0
  then show ?case by (simp add: run_from_def)
next
  case (Suc n)
  have st: "shutdown_due (exec env s Main)"
    and rk: "min 18 (Suc (main_rank (main_pc s))) \<le> main_rank (main_pc (exec env s Main))"
    using main_progress_step[OF Suc.prems] by simp_all
  have "min 18 (main_rank (main_pc (exec env s Main)) + n)
          \<le> main_rank (main_pc (run_from env (exec env s Main) (replicate n Main)))"
    using Suc.IH[OF st] .
  moreover have "run_from env s (replicate (Suc n) Main)
                   = run_from env (exec env s Main) (replicate n Main)"
    by (simp add: run_from_def)
  ultimately show ?case using rk by simp
qed

lemma shutdown_runs:
  assumes "shutdown_due (run env evs)"
  shows "kills (trace (run env (evs @ replicate 12 Main))) = 1"
proof -
  let ?t = "run env (evs @ replicate 12 Main)"
  have "6 \<le> main_rank (main_pc (run env evs))"
    using assms by (simp add: shutdown_due_def)
  then have "18 \<le> main_rank (main_pc ?t)"
    using main_progress[OF assms, of 12 env] by (simp add: run_append)
  moreover have "quit_inv ?t"
    using inv_run[of env "evs @ replicate 12 Main"] by (simp add: inv_def)
  ultimately show ?thesis by (simp add: quit_inv_def)
qed


lemma starts_bootstrap_actor:
  "a = Received SignalDispatcherListen \<or> starts_bootstrap a \<Longrightarrow> actor_of a = By_pm"
  by (cases a) auto

lemma pm_script_head:
  "only_after (\<lambda>a. a = Received SignalDispatcherListen) Q (take n (pm_script env))"
  by (cases n) (simp_all add: pm_script_def)


lemma broker_call_actor:
  "a = Received SignalProcessBootstrap \<or> broker_call a \<Longrightarrow> actor_of a = By_mr"
  by (cases a) auto

lemma mr_hist_guard:
  "only_after (\<lambda>a. a = Received SignalProcessBootstrap) Q (mr_hist env pc)"
  using mr_hist_head[of env pc] by auto

lemma enters_bootstrap_actor:
  "a = Call_MkdirAll p \<or> enters_bootstrap a \<Longrightarrow> actor_of a = By_pm"
  by (cases a) auto

lemma pm_script_mkdir:
  "only_after (\<lambda>a. a = Call_MkdirAll (worker_dir env)) enters_bootstrap
     (take n (pm_script env))"
proof -
  have "n = 0 \<or> n = 1 \<or> 2 \<le> n" by arith
  then show ?thesis
  proof (elim disjE)
    assume "2 \<le> n"
    then obtain k where "n = Suc (Suc k)" by (metis add_2_eq_Suc le_Suc_ex)
    then show ?thesis by (simp add: pm_script_def)
  qed (simp_all add: pm_script_def)
qed

lemma filter_proj:
  "(\<And>a. f a \<Longrightarrow> actor_of a = who) \<Longrightarrow> filter f (proj who l) = filter f l"
  by (induction l) auto

lemma is_publish_actor: "is_publish a \<Longrightarrow> actor_of a = By_mr"
  by (cases a) auto

lemma publish_actor: "is_connect_client a \<or> is_publish a \<Longrightarrow> actor_of a = By_mr"
  by (cases a) auto

lemma subscribe_actor: "is_publish a \<or> is_subscribe a \<Longrightarrow> actor_of a = By_mr"
  by (cases a) auto

lemma mr_hist_publish:
  "filter is_publish (mr_hist env pc) =
     (if 12 \<le> mr_rank pc
      then [Call_Publish ''handshake'' (the_data env) (publish_result env)] else [])"
  by (cases pc; simp add: mr_parts)

lemma mr_hist_connect_publish:
  "only_after is_connect_client is_publish (mr_hist env pc)"
  by (cases pc; simp add: mr_parts)

lemma mr_hist_publish_subscribe:
  "only_after is_publish is_subscribe (mr_hist env pc)"
  by (cases pc; simp add: mr_parts)

lemma published_actor:
  "a = Call_ConnectClient None \<or> is_published a \<Longrightarrow> actor_of a = By_mr"
  by (cases a) auto

lemma mr_hist_connected_published:
  "router_contract env \<Longrightarrow>
   only_after (\<lambda>a. a = Call_ConnectClient None) is_published (mr_hist env pc)"
  by (cases pc; cases "ConnectClient env"; cases "publish_result env";
      simp add: mr_parts router_contract_def)

lemma mr_hist_prefix:
  "mr_local_ok env pc e \<Longrightarrow> prefix (mr_hist env pc) (mr_script env)"
  by (cases pc; simp add: mr_parts mr_local_ok_def)

lemma mr_blocked:
  "step env MR s = None \<longrightarrow>
     mr_pc s = R_idle \<or> mr_pc s = R_end \<or> mr_pc s = R164 \<and> boot_chan s = 0 \<or>
     blocked_at 168 s \<or> blocked_at 174 s \<or> blocked_at 179 s \<or> blocked_at 183 s \<or>
     blocked_at 188 s"
  by (cases "mr_pc s"; simp add: mr_defs blocked_at_def split: prod.splits)


subsection \<open>An error branch leads to the shutdown\<close>

lemma run_two: "run env (evs @ [g, g]) = exec env (exec env (run env evs) g) g"
  using run_snoc[of env "evs @ [g]" g] run_snoc[of env evs g] by simp

lemma proj_member: "a \<in> set l \<Longrightarrow> actor_of a = who \<Longrightarrow> a \<in> set (proj who l)"
  by (simp add: proj_def)

lemma proj_subset: "a \<in> set (proj who l) \<Longrightarrow> a \<in> set l"
  by (simp add: proj_def)

lemma sent_deliveries: "Quit_sent line \<in> set l \<Longrightarrow> 0 < deliveries l"
  by (induction l) auto

lemma answeredI:
  assumes "Quit_sent line \<in> set (trace (run env (evs @ [g, g]))) \<or>
           blocked_at line (run env (evs @ [g, g]))"
    and "13 \<le> main_rank (main_pc (run env (evs @ [g, g])))"
  shows "answered env evs g line"
proof -
  let ?s = "run env (evs @ [g, g])"
  have q: "quit_inv ?s" using inv_run[of env "evs @ [g, g]"] by (simp add: inv_def)
  have "quit ?s \<noteq> [] \<or> 17 \<le> main_rank (main_pc ?s)"
  proof (rule disjE[OF assms(1)])
    assume "Quit_sent line \<in> set (trace ?s)"
    then have "0 < deliveries (trace ?s)" by (rule sent_deliveries)
    then show ?thesis using q by (auto simp: quit_inv_def split: if_splits)
  next
    assume "blocked_at line ?s"
    then show ?thesis by (simp add: blocked_at_def)
  qed
  then have d: "shutdown_due ?s" using assms(2) by (simp add: shutdown_due_def)
  have e: "run env (evs @ [g, g] @ replicate 5 Main) = run_from env ?s (replicate 5 Main)"
    using run_append[of env "evs @ [g, g]" "replicate 5 Main"] by (simp only: append_assoc)
  have "min 18 (main_rank (main_pc ?s) + 5)
          \<le> main_rank (main_pc (run_from env ?s (replicate 5 Main)))"
    by (rule main_progress[OF d])
  then have "18 \<le> main_rank (main_pc (run env (evs @ [g, g] @ replicate 5 Main)))"
    using assms(2) unfolding e by simp
  moreover have "quit_inv (run env (evs @ [g, g] @ replicate 5 Main))"
    using inv_run[of env "evs @ [g, g] @ replicate 5 Main"] by (simp only: inv_def)
  ultimately have "kills (trace (run env (evs @ [g, g] @ replicate 5 Main))) = 1"
    by (simp only: quit_inv_def if_True)
  then show ?thesis using assms(1) by (simp add: answered_def)
qed

lemma pm_failed:
  assumes "pm_inv env s" and "Leave_BootstrapWorkers (Some e) \<in> set (trace s)"
  shows "bootstrap_result env = Some e \<and> 4 \<le> pm_done (pm_pc s)"
proof -
  have "Leave_BootstrapWorkers (Some e) \<in> set (proj By_pm (trace s))"
    using assms(2) by (rule proj_member) simp
  then have "Leave_BootstrapWorkers (Some e)
               \<in> set (take (pm_done (pm_pc s)) (pm_script env))"
    using assms(1) by (simp add: pm_inv_def)
  then show ?thesis
    by (cases "pm_pc s"; auto simp add: pm_script_def fail_acts_def split: if_splits)
qed

lemma pm_two_steps:
  "4 \<le> pm_done (pm_pc s) \<Longrightarrow>
   pm_pc (exec env (exec env s PM) PM) = P_end \<or>
   blocked_at 142 (exec env (exec env s PM) PM)"
  by (cases "pm_pc s"; simp add: exec_def pm_defs blocked_at_def)

lemma pm_sent:
  assumes "pm_inv env s" and "bootstrap_result env \<noteq> None" and "pm_pc s = P_end"
  shows "Quit_sent 142 \<in> set (trace s)"
proof -
  have "Quit_sent 142 \<in> set (proj By_pm (trace s))"
    using assms by (simp add: pm_inv_def pm_script_def fail_acts_def)
  then show ?thesis by (rule proj_subset)
qed

lemma disp_failed:
  assumes "disp_inv env s" and "Leave_ListenAndServe (Some e) \<in> set (trace s)"
  shows "ListenAndServe env = Some e \<and> 2 \<le> disp_done (disp_pc s)"
proof -
  have "Leave_ListenAndServe (Some e) \<in> set (proj By_disp (trace s))"
    using assms(2) by (rule proj_member) simp
  then have "Leave_ListenAndServe (Some e)
               \<in> set (take (disp_done (disp_pc s)) (disp_script env))"
    using assms(1) by (simp add: disp_inv_def)
  then show ?thesis
    by (cases "disp_pc s"; auto simp add: disp_script_def fail_acts_def split: if_splits)
qed

lemma disp_two_steps:
  "2 \<le> disp_done (disp_pc s) \<Longrightarrow>
   disp_pc (exec env (exec env s Disp) Disp) = D_end \<or>
   blocked_at 154 (exec env (exec env s Disp) Disp)"
  by (cases "disp_pc s"; simp add: exec_def disp_defs blocked_at_def)

lemma disp_sent:
  assumes "disp_inv env s" and "ListenAndServe env \<noteq> None" and "disp_pc s = D_end"
  shows "Quit_sent 154 \<in> set (trace s)"
proof -
  have "Quit_sent 154 \<in> set (proj By_disp (trace s))"
    using assms by (simp add: disp_inv_def disp_script_def fail_acts_def)
  then show ?thesis by (rule proj_subset)
qed

lemma connect_failed:
  assumes "mr_inv env s" and "Call_ConnectClient (Some e) \<in> set (trace s)"
  shows "ConnectClient env = Some e \<and> 3 \<le> mr_rank (mr_pc s)"
proof -
  have "Call_ConnectClient (Some e) \<in> set (proj By_mr (trace s))"
    using assms(2) by (rule proj_member) simp
  then have "Call_ConnectClient (Some e) \<in> set (mr_hist env (mr_pc s))"
    using assms(1) by (simp add: mr_inv_def)
  then show ?thesis
    by (cases "mr_pc s"; auto simp add: mr_parts split: if_splits)
qed

lemma connect_two_steps:
  "3 \<le> mr_rank (mr_pc s) \<Longrightarrow>
   5 \<le> mr_rank (mr_pc (exec env (exec env s MR) MR)) \<or>
   blocked_at 168 (exec env (exec env s MR) MR)"
  by (cases "mr_pc s"; simp add: exec_def mr_defs blocked_at_def split: prod.splits)

lemma connect_sent:
  assumes "mr_inv env s" and "ConnectClient env \<noteq> None" and "5 \<le> mr_rank (mr_pc s)"
  shows "Quit_sent 168 \<in> set (trace s)"
proof -
  have "Quit_sent 168 \<in> set (mr_hist env (mr_pc s))"
    using assms(2,3) by (cases "mr_pc s"; simp add: mr_parts)
  then have "Quit_sent 168 \<in> set (proj By_mr (trace s))"
    using assms(1) by (simp add: mr_inv_def)
  then show ?thesis by (rule proj_subset)
qed

lemma subscribe_failed:
  assumes "mr_inv env s" and "Call_Subscribe (Some e) \<in> set (trace s)"
  shows "Subscribe env = Some e \<and> 15 \<le> mr_rank (mr_pc s)"
proof -
  have "Call_Subscribe (Some e) \<in> set (proj By_mr (trace s))"
    using assms(2) by (rule proj_member) simp
  then have "Call_Subscribe (Some e) \<in> set (mr_hist env (mr_pc s))"
    using assms(1) by (simp add: mr_inv_def)
  then show ?thesis
    by (cases "mr_pc s"; auto simp add: mr_parts split: if_splits)
qed

lemma subscribe_two_steps:
  "15 \<le> mr_rank (mr_pc s) \<Longrightarrow>
   mr_pc (exec env (exec env s MR) MR) = R_end \<or>
   blocked_at 188 (exec env (exec env s MR) MR)"
  by (cases "mr_pc s"; simp add: exec_def mr_defs blocked_at_def split: prod.splits)

lemma subscribe_sent:
  assumes "mr_inv env s" and "Subscribe env \<noteq> None" and "mr_pc s = R_end"
  shows "Quit_sent 188 \<in> set (trace s)"
proof -
  have "Quit_sent 188 \<in> set (mr_hist env (mr_pc s))"
    using assms(2,3) by (simp add: mr_parts)
  then have "Quit_sent 188 \<in> set (proj By_mr (trace s))"
    using assms(1) by (simp add: mr_inv_def)
  then show ?thesis by (rule proj_subset)
qed

lemma pm_answered:
  assumes "Leave_BootstrapWorkers (Some e) \<in> set (trace (run env evs))"
  shows "answered env evs PM 142"
proof (rule answeredI)
  let ?s = "run env evs" and ?t = "run env (evs @ [PM, PM])"
  have i: "pm_inv env ?s" using inv_run[of env evs] by (simp add: inv_def)
  have j: "pm_inv env ?t" and w: "wf ?t"
    using inv_run[of env "evs @ [PM, PM]"] by (simp_all add: inv_def)
  have f: "bootstrap_result env = Some e" and r: "4 \<le> pm_done (pm_pc ?s)"
    using pm_failed[OF i assms] by simp_all
  have "pm_pc ?t = P_end \<or> blocked_at 142 ?t"
    using pm_two_steps[OF r, of env] by (simp only: run_two)
  then show "Quit_sent 142 \<in> set (trace ?t) \<or> blocked_at 142 ?t"
    using pm_sent[OF j] f by auto
  have "pm_pc ?t \<noteq> P_idle"
    using \<open>pm_pc ?t = P_end \<or> blocked_at 142 ?t\<close> by (auto simp: blocked_at_def)
  then show "13 \<le> main_rank (main_pc ?t)" using w by (simp add: wf_def)
qed

lemma disp_answered:
  assumes "Leave_ListenAndServe (Some e) \<in> set (trace (run env evs))"
  shows "answered env evs Disp 154"
proof (rule answeredI)
  let ?s = "run env evs" and ?t = "run env (evs @ [Disp, Disp])"
  have i: "disp_inv env ?s" using inv_run[of env evs] by (simp add: inv_def)
  have j: "disp_inv env ?t" and w: "wf ?t"
    using inv_run[of env "evs @ [Disp, Disp]"] by (simp_all add: inv_def)
  have f: "ListenAndServe env = Some e" and r: "2 \<le> disp_done (disp_pc ?s)"
    using disp_failed[OF i assms] by simp_all
  have "disp_pc ?t = D_end \<or> blocked_at 154 ?t"
    using disp_two_steps[OF r, of env] by (simp only: run_two)
  then show "Quit_sent 154 \<in> set (trace ?t) \<or> blocked_at 154 ?t"
    using disp_sent[OF j] f by auto
  have "disp_pc ?t \<noteq> D_idle"
    using \<open>disp_pc ?t = D_end \<or> blocked_at 154 ?t\<close> by (auto simp: blocked_at_def)
  then show "13 \<le> main_rank (main_pc ?t)" using w by (simp add: wf_def)
qed

lemma connect_answered:
  assumes "Call_ConnectClient (Some e) \<in> set (trace (run env evs))"
  shows "answered env evs MR 168"
proof (rule answeredI)
  let ?s = "run env evs" and ?t = "run env (evs @ [MR, MR])"
  have i: "mr_inv env ?s" using inv_run[of env evs] by (simp add: inv_def)
  have j: "mr_inv env ?t" and w: "wf ?t"
    using inv_run[of env "evs @ [MR, MR]"] by (simp_all add: inv_def)
  have f: "ConnectClient env = Some e" and r: "3 \<le> mr_rank (mr_pc ?s)"
    using connect_failed[OF i assms] by simp_all
  have "5 \<le> mr_rank (mr_pc ?t) \<or> blocked_at 168 ?t"
    using connect_two_steps[OF r, of env] by (simp only: run_two)
  then show "Quit_sent 168 \<in> set (trace ?t) \<or> blocked_at 168 ?t"
    using connect_sent[OF j] f by auto
  have "mr_pc ?t \<noteq> R_idle"
    using \<open>5 \<le> mr_rank (mr_pc ?t) \<or> blocked_at 168 ?t\<close>
    by (auto simp: blocked_at_def)
  then show "13 \<le> main_rank (main_pc ?t)" using w by (simp add: wf_def)
qed

lemma subscribe_answered:
  assumes "Call_Subscribe (Some e) \<in> set (trace (run env evs))"
  shows "answered env evs MR 188"
proof (rule answeredI)
  let ?s = "run env evs" and ?t = "run env (evs @ [MR, MR])"
  have i: "mr_inv env ?s" using inv_run[of env evs] by (simp add: inv_def)
  have j: "mr_inv env ?t" and w: "wf ?t"
    using inv_run[of env "evs @ [MR, MR]"] by (simp_all add: inv_def)
  have f: "Subscribe env = Some e" and r: "15 \<le> mr_rank (mr_pc ?s)"
    using subscribe_failed[OF i assms] by simp_all
  have "mr_pc ?t = R_end \<or> blocked_at 188 ?t"
    using subscribe_two_steps[OF r, of env] by (simp only: run_two)
  then show "Quit_sent 188 \<in> set (trace ?t) \<or> blocked_at 188 ?t"
    using subscribe_sent[OF j] f by auto
  have "mr_pc ?t \<noteq> R_idle"
    using \<open>mr_pc ?t = R_end \<or> blocked_at 188 ?t\<close> by (auto simp: blocked_at_def)
  then show "13 \<le> main_rank (main_pc ?t)" using w by (simp add: wf_def)
qed


lemma pm_assigned:
  assumes "pm_inv env s" and "bootstrap_result env = Some e"
    and "pm_pc s = P_end \<or> blocked_at 142 s"
  shows "Err_assigned 141 (Some e) \<in> set (trace s)"
proof -
  have "pm_pc s = P_end \<or> pm_pc s = P142" using assms(3) by (auto simp: blocked_at_def)
  then have "Err_assigned 141 (Some e) \<in> set (proj By_pm (trace s))"
    using assms(1,2) by (auto simp: pm_inv_def pm_script_def fail_acts_def)
  then show ?thesis by (rule proj_subset)
qed

lemma disp_assigned:
  assumes "disp_inv env s" and "ListenAndServe env = Some e"
    and "disp_pc s = D_end \<or> blocked_at 154 s"
  shows "Err_assigned 153 (Some e) \<in> set (trace s)"
proof -
  have "disp_pc s = D_end \<or> disp_pc s = D154" using assms(3) by (auto simp: blocked_at_def)
  then have "Err_assigned 153 (Some e) \<in> set (proj By_disp (trace s))"
    using assms(1,2) by (auto simp: disp_inv_def disp_script_def fail_acts_def)
  then show ?thesis by (rule proj_subset)
qed

lemma connect_assigned:
  assumes "mr_inv env s" and "ConnectClient env = Some e"
    and "5 \<le> mr_rank (mr_pc s) \<or> blocked_at 168 s"
  shows "Err_assigned 167 (Some e) \<in> set (trace s)"
proof -
  have "4 \<le> mr_rank (mr_pc s)" using assms(3) by (auto simp: blocked_at_def)
  then have "Err_assigned 167 (Some e) \<in> set (mr_hist env (mr_pc s))"
    using assms(2) by (cases "mr_pc s"; simp add: mr_parts)
  then have "Err_assigned 167 (Some e) \<in> set (proj By_mr (trace s))"
    using assms(1) by (simp add: mr_inv_def)
  then show ?thesis by (rule proj_subset)
qed

lemma subscribe_assigned:
  assumes "mr_inv env s" and "Subscribe env = Some e"
    and "mr_pc s = R_end \<or> blocked_at 188 s"
  shows "Err_assigned 187 (Some e) \<in> set (trace s)"
proof -
  have "16 \<le> mr_rank (mr_pc s)" using assms(3) by (auto simp: blocked_at_def)
  then have "Err_assigned 187 (Some e) \<in> set (mr_hist env (mr_pc s))"
    using assms(2) by (cases "mr_pc s"; simp add: mr_parts)
  then have "Err_assigned 187 (Some e) \<in> set (proj By_mr (trace s))"
    using assms(1) by (simp add: mr_inv_def)
  then show ?thesis by (rule proj_subset)
qed

lemma pm_error_assigned:
  assumes "Leave_BootstrapWorkers (Some e) \<in> set (trace (run env evs))"
  shows "Err_assigned 141 (Some e) \<in> set (trace (run env (evs @ [PM, PM])))"
proof -
  let ?s = "run env evs" and ?t = "run env (evs @ [PM, PM])"
  have i: "pm_inv env ?s" using inv_run[of env evs] by (simp add: inv_def)
  have j: "pm_inv env ?t" using inv_run[of env "evs @ [PM, PM]"] by (simp add: inv_def)
  have f: "bootstrap_result env = Some e" and r: "4 \<le> pm_done (pm_pc ?s)"
    using pm_failed[OF i assms] by simp_all
  have "pm_pc ?t = P_end \<or> blocked_at 142 ?t"
    using pm_two_steps[OF r, of env] by (simp only: run_two)
  then show ?thesis by (rule pm_assigned[OF j f])
qed

lemma disp_error_assigned:
  assumes "Leave_ListenAndServe (Some e) \<in> set (trace (run env evs))"
  shows "Err_assigned 153 (Some e) \<in> set (trace (run env (evs @ [Disp, Disp])))"
proof -
  let ?s = "run env evs" and ?t = "run env (evs @ [Disp, Disp])"
  have i: "disp_inv env ?s" using inv_run[of env evs] by (simp add: inv_def)
  have j: "disp_inv env ?t" using inv_run[of env "evs @ [Disp, Disp]"] by (simp add: inv_def)
  have f: "ListenAndServe env = Some e" and r: "2 \<le> disp_done (disp_pc ?s)"
    using disp_failed[OF i assms] by simp_all
  have "disp_pc ?t = D_end \<or> blocked_at 154 ?t"
    using disp_two_steps[OF r, of env] by (simp only: run_two)
  then show ?thesis by (rule disp_assigned[OF j f])
qed

lemma connect_error_assigned:
  assumes "Call_ConnectClient (Some e) \<in> set (trace (run env evs))"
  shows "Err_assigned 167 (Some e) \<in> set (trace (run env (evs @ [MR, MR])))"
proof -
  let ?s = "run env evs" and ?t = "run env (evs @ [MR, MR])"
  have i: "mr_inv env ?s" using inv_run[of env evs] by (simp add: inv_def)
  have j: "mr_inv env ?t" using inv_run[of env "evs @ [MR, MR]"] by (simp add: inv_def)
  have f: "ConnectClient env = Some e" and r: "3 \<le> mr_rank (mr_pc ?s)"
    using connect_failed[OF i assms] by simp_all
  have "5 \<le> mr_rank (mr_pc ?t) \<or> blocked_at 168 ?t"
    using connect_two_steps[OF r, of env] by (simp only: run_two)
  then show ?thesis by (rule connect_assigned[OF j f])
qed

lemma subscribe_error_assigned:
  assumes "Call_Subscribe (Some e) \<in> set (trace (run env evs))"
  shows "Err_assigned 187 (Some e) \<in> set (trace (run env (evs @ [MR, MR])))"
proof -
  let ?s = "run env evs" and ?t = "run env (evs @ [MR, MR])"
  have i: "mr_inv env ?s" using inv_run[of env evs] by (simp add: inv_def)
  have j: "mr_inv env ?t" using inv_run[of env "evs @ [MR, MR]"] by (simp add: inv_def)
  have f: "Subscribe env = Some e" and r: "15 \<le> mr_rank (mr_pc ?s)"
    using subscribe_failed[OF i assms] by simp_all
  have "mr_pc ?t = R_end \<or> blocked_at 188 ?t"
    using subscribe_two_steps[OF r, of env] by (simp only: run_two)
  then show ?thesis by (rule subscribe_assigned[OF j f])
qed

subsection \<open>What the Action returns\<close>

lemma assigned_before_return:
  "e \<in> set (assigned (before_return l)) \<Longrightarrow> e \<in> set (assigned l)"
  by (induction l rule: assigned.induct) (auto split: if_splits)

lemma only_after_before_return:
  "only_after P Q l \<Longrightarrow> only_after P Q (before_return l)"
  by (induction l) (auto split: if_splits)

lemma sent_needs_assign:
  "only_after is_assign is_sent l \<Longrightarrow> list_ex is_sent l \<Longrightarrow> assigned l \<noteq> []"
  by (induction l rule: assigned.induct) (auto split: if_splits)

lemma last_assigned_nonnil:
  assumes "list_all (\<lambda>e. e \<noteq> None) (assigned l)"
  shows "last_assigned l = None \<longleftrightarrow> assigned l = []"
proof (cases "assigned l = []")
  case True
  then show ?thesis by (simp add: last_assigned_def)
next
  case False
  then have "last (assigned l) \<in> set (assigned l)" by simp
  then have "last (assigned l) \<noteq> None" using assms by (simp add: list_all_iff)
  then show ?thesis using False by (simp add: last_assigned_def)
qed

lemma reported_none:
  assumes "sent_inv s"
  shows "reported env (trace s) = None \<longleftrightarrow>
           KillAllWorkers env = None \<and> assigned (before_return (trace s)) = []"
proof -
  have "list_all (\<lambda>e. e \<noteq> None) (assigned (before_return (trace s)))"
    using assms assigned_before_return[of _ "trace s"]
    by (auto simp: sent_inv_def list_all_iff)
  then show ?thesis
    using last_assigned_nonnil[of "before_return (trace s)"]
    by (cases "KillAllWorkers env") (simp_all add: reported_def)
qed

lemma exit_status_ret:
  "ret s = Some r \<Longrightarrow> exit_status s = Some (if r = None then 0 else 1)"
  by (cases r) (simp_all add: exit_status_def)

lemma listen_signal_never_dropped:
  "Published SignalDispatcherListen False \<notin> set (trace (run env evs))"
  using inv_run[of env evs] by (simp add: inv_def chan_inv_def)


subsection \<open>A send behind a full buffer, after main has received\<close>

lemma frozen_step:
  assumes "17 \<le> main_rank (main_pc s)" and "quit s \<noteq> []"
  shows "frozen s (exec env s ev)"
proof (cases ev)
  case Main
  show ?thesis unfolding Main using assms
    by (cases "main_pc s"; simp add: exec_def main_defs frozen_def)
next
  case PM
  show ?thesis unfolding PM using assms
    by (cases "pm_pc s"; simp add: exec_def pm_defs frozen_def)
next
  case Disp
  show ?thesis unfolding Disp using assms
    by (cases "disp_pc s"; simp add: exec_def disp_defs frozen_def)
next
  case MR
  show ?thesis unfolding MR using assms
    by (cases "mr_pc s"; simp add: exec_def mr_defs frozen_def split: prod.splits)
next
  case (OS sg)
  show ?thesis unfolding OS using assms
    by (simp add: exec_def env_defs frozen_def)
next
  case Publish_listen
  show ?thesis unfolding Publish_listen using assms
    by (simp add: exec_def env_defs frozen_def)
next
  case Publish_bootstrap
  show ?thesis unfolding Publish_bootstrap using assms
    by (simp add: exec_def env_defs frozen_def)
qed

lemma blocked_for_ever:
  "17 \<le> main_rank (main_pc s) \<Longrightarrow> blocked_at line s \<Longrightarrow>
   blocked_at line (run_from env s evs)"
proof (induction evs arbitrary: s)
  case Nil
  then show ?case by (simp add: run_from_def)
next
  case (Cons ev evs)
  have q: "quit s \<noteq> []" using Cons.prems(2) by (simp add: blocked_at_def)
  have f: "frozen s (exec env s ev)" using frozen_step[OF Cons.prems(1) q] .
  have "blocked_at line (exec env s ev)"
    using f Cons.prems(2) by (auto simp: frozen_def blocked_at_def)
  moreover have "17 \<le> main_rank (main_pc (exec env s ev))"
    using f by (simp add: frozen_def)
  ultimately have "blocked_at line (run_from env (exec env s ev) evs)"
    using Cons.IH by blast
  then show ?case by (simp add: run_from_def)
qed


subsection \<open>A subscriber that came too late\<close>

lemma starved_step:
  assumes "starved s"
  shows "starved (exec env s ev)"
proof (cases ev)
  case Main
  show ?thesis unfolding Main using assms
    by (cases "main_pc s"; cases "quit s"; simp add: exec_def main_defs starved_def)
next
  case PM
  show ?thesis unfolding PM using assms
    by (simp add: exec_def pm_defs starved_def)
next
  case Disp
  show ?thesis unfolding Disp using assms
    by (cases "disp_pc s"; simp add: exec_def disp_defs starved_def)
next
  case MR
  show ?thesis unfolding MR using assms
    by (simp add: exec_def mr_defs starved_def)
next
  case (OS sg)
  show ?thesis unfolding OS using assms
    by (simp add: exec_def env_defs starved_def)
next
  case Publish_listen
  show ?thesis unfolding Publish_listen using assms
    by (simp add: exec_def env_defs starved_def)
next
  case Publish_bootstrap
  show ?thesis unfolding Publish_bootstrap using assms
    by (simp add: exec_def env_defs starved_def)
qed

lemma starved_for_ever: "starved s \<Longrightarrow> starved (run_from env s evs)"
proof (induction evs arbitrary: s)
  case Nil
  then show ?case by (simp add: run_from_def)
next
  case (Cons ev evs)
  have "starved (run_from env (exec env s ev) evs)"
    using Cons.IH[OF starved_step[OF Cons.prems]] .
  then show ?case by (simp add: run_from_def)
qed

lemma stays_blocked:
  assumes "17 \<le> main_rank (main_pc (run env evs))" and "blocked_at line (run env evs)"
  shows "blocked_at line (run env (evs @ later))"
  using blocked_for_ever[OF assms, of env later] by (simp add: run_append)


section \<open>The claims\<close>

text \<open>
  C3. Worker bootstrap never starts before the dispatcher's listen-ready signal: in every
  run, the creation of the worker directory and the call of BootstrapWorkers happen only
  after the process manager goroutine has received a value on the channel of its
  SignalDispatcherListen subscription; and such a value is received only after the
  dispatcher has published the signal to the subscriber.
\<close>

theorem C3_bootstrap_after_listen_ready:
  "only_after (\<lambda>a. a = Received SignalDispatcherListen) starts_bootstrap
     (trace (run env evs)) \<and>
   only_after (\<lambda>a. a = Published SignalDispatcherListen True)
     (\<lambda>a. a = Received SignalDispatcherListen) (trace (run env evs))"
proof
  have i: "pm_inv env (run env evs)" using inv_run[of env evs] by (simp add: inv_def)
  have "only_after (\<lambda>a. a = Received SignalDispatcherListen) starts_bootstrap
          (proj By_pm (trace (run env evs)))"
    unfolding i[unfolded pm_inv_def, THEN conjunct1] by (rule pm_script_head)
  then show "only_after (\<lambda>a. a = Received SignalDispatcherListen) starts_bootstrap
          (trace (run env evs))"
    by (rule only_after_proj[rotated]) (rule starts_bootstrap_actor)
next
  show "only_after (\<lambda>a. a = Published SignalDispatcherListen True)
     (\<lambda>a. a = Received SignalDispatcherListen) (trace (run env evs))"
    using inv_run[of env evs] by (simp add: inv_def chan_inv_def)
qed

theorem C3_witness:
  "only_after (\<lambda>a. a = Received SignalDispatcherListen) starts_bootstrap
     (trace (run env_ok until_bootstrap)) \<and>
   list_ex starts_bootstrap (trace (run env_ok until_bootstrap))"
proof -
  have "list_ex starts_bootstrap (trace (run env_ok until_bootstrap))"
    by code_simp
  then show ?thesis
    using C3_bootstrap_after_listen_ready[of env_ok until_bootstrap] by simp
qed


text \<open>
  C4. Broker connect, handshake publish and subscription never start before a
  process-bootstrap signal: in every run, ConnectClient, Publish and Subscribe are called
  only after the message router goroutine has received a value on the channel of its
  SignalProcessBootstrap subscription; and such a value is received only after the signal
  was published to the subscriber.
\<close>

theorem C4_broker_after_bootstrap_signal:
  "only_after (\<lambda>a. a = Received SignalProcessBootstrap) broker_call
     (trace (run env evs)) \<and>
   only_after (\<lambda>a. a = Published SignalProcessBootstrap True)
     (\<lambda>a. a = Received SignalProcessBootstrap) (trace (run env evs))"
proof
  have i: "mr_inv env (run env evs)" using inv_run[of env evs] by (simp add: inv_def)
  have "only_after (\<lambda>a. a = Received SignalProcessBootstrap) broker_call
          (proj By_mr (trace (run env evs)))"
    unfolding i[unfolded mr_inv_def, THEN conjunct1] by (rule mr_hist_guard)
  then show "only_after (\<lambda>a. a = Received SignalProcessBootstrap) broker_call
          (trace (run env evs))"
    by (rule only_after_proj[rotated]) (rule broker_call_actor)
next
  show "only_after (\<lambda>a. a = Published SignalProcessBootstrap True)
     (\<lambda>a. a = Received SignalProcessBootstrap) (trace (run env evs))"
    using inv_run[of env evs] by (simp add: inv_def chan_inv_def)
qed

theorem C4_witness:
  "only_after (\<lambda>a. a = Received SignalProcessBootstrap) broker_call
     (trace (run env_ok until_subscribed)) \<and>
   filter broker_call (trace (run env_ok until_subscribed))
     = [Call_ConnectClient None, Call_Publish ''handshake'' ''<facts>'' None,
        Call_Subscribe None]"
proof -
  have "filter broker_call (trace (run env_ok until_subscribed))
     = [Call_ConnectClient None, Call_Publish ''handshake'' ''<facts>'' None,
        Call_Subscribe None]"
    by code_simp
  then show ?thesis
    using C4_broker_after_bootstrap_signal[of env_ok until_subscribed] by simp
qed


text \<open>
  C9, as the code has it. The worker directory is created by the caller, not by
  BootstrapWorkers: the process manager goroutine of main.go calls \<^verbatim>\<open>os.MkdirAll\<close> on
  the worker directory as a step of its own (line 139, its result ignored) and calls
  BootstrapWorkers on the same path right after it. What the goroutine does is always a
  prefix of: receive, MkdirAll, BootstrapWorkers and, on an error, the error branch; so
  BootstrapWorkers is entered only after the caller's MkdirAll.
\<close>

theorem C9_directory_created_by_caller:
  "prefix (proj By_pm (trace (run env evs))) (pm_script env) \<and>
   only_after (\<lambda>a. a = Call_MkdirAll (worker_dir env)) enters_bootstrap
     (trace (run env evs))"
proof
  have i: "pm_inv env (run env evs)" using inv_run[of env evs] by (simp add: inv_def)
  show "prefix (proj By_pm (trace (run env evs))) (pm_script env)"
    unfolding i[unfolded pm_inv_def, THEN conjunct1] by (rule take_is_prefix)
  have "only_after (\<lambda>a. a = Call_MkdirAll (worker_dir env)) enters_bootstrap
          (proj By_pm (trace (run env evs)))"
    unfolding i[unfolded pm_inv_def, THEN conjunct1] by (rule pm_script_mkdir)
  then show "only_after (\<lambda>a. a = Call_MkdirAll (worker_dir env)) enters_bootstrap
          (trace (run env evs))"
    by (rule only_after_proj[rotated]) (rule enters_bootstrap_actor)
qed

theorem C9_witness:
  "only_after (\<lambda>a. a = Call_MkdirAll (worker_dir env_ok)) enters_bootstrap
     (trace (run env_ok until_bootstrap)) \<and>
   proj By_pm (trace (run env_ok until_bootstrap))
     = [Received SignalDispatcherListen, Call_MkdirAll ''/usr/libexec/yggdrasil'',
        Enter_BootstrapWorkers ''/usr/libexec/yggdrasil'', Leave_BootstrapWorkers None]"
proof -
  have "proj By_pm (trace (run env_ok until_bootstrap))
     = [Received SignalDispatcherListen, Call_MkdirAll ''/usr/libexec/yggdrasil'',
        Enter_BootstrapWorkers ''/usr/libexec/yggdrasil'', Leave_BootstrapWorkers None]"
    by code_simp
  then show ?thesis
    using C9_directory_created_by_caller[of env_ok until_bootstrap] by simp
qed


text \<open>
  The claim as stated (the directory creation is part of BootstrapWorkers, not a step of
  its caller) fails: here the caller has created the directory and BootstrapWorkers has not
  been entered yet.
\<close>

theorem C9_counterexample:
  "pm_pc (run env_ok until_mkdir) = P140 \<and>
   Call_MkdirAll ''/usr/libexec/yggdrasil'' \<in> set (trace (run env_ok until_mkdir)) \<and>
   \<not> list_ex enters_bootstrap (trace (run env_ok until_mkdir))"
  by code_simp


text \<open>
  C2. Exactly one shutdown sequence executes, also when an OS signal and a fatal error
  arrive together: in every run main receives from \<^verbatim>\<open>quit\<close> at most once and calls
  KillAllWorkers at most once; when the Action has returned from its shutdown part (lines
  194 to 202), it has called it exactly once; and as soon as startup is done and a
  termination request is pending or taken, twelve steps of main are enough to have
  KillAllWorkers called, exactly once.
\<close>

theorem C2_one_shutdown_sequence:
  "kills (trace (run env evs)) \<le> 1 \<and> receives (trace (run env evs)) \<le> 1 \<and>
   (main_pc (run env evs) = M_returned \<longrightarrow> kills (trace (run env evs)) = 1) \<and>
   (shutdown_due (run env evs) \<longrightarrow>
      kills (trace (run env (evs @ replicate 12 Main))) = 1)"
proof -
  have "quit_inv (run env evs)" using inv_run[of env evs] by (simp add: inv_def)
  then show ?thesis using shutdown_runs[of env evs] by (simp add: quit_inv_def)
qed

theorem C2_witness:
  "shutdown_due (run env_listen_fails signal_and_error) \<and>
   Quit_notified SIGINT \<in> set (trace (run env_listen_fails signal_and_error)) \<and>
   Quit_sent 154 \<in> set (trace (run env_listen_fails signal_and_error)) \<and>
   main_pc (run env_listen_fails (signal_and_error @ replicate 12 Main)) = M_returned \<and>
   kills (trace (run env_listen_fails (signal_and_error @ replicate 12 Main))) = 1"
proof -
  have h: "shutdown_due (run env_listen_fails signal_and_error)"
    and n: "Quit_notified SIGINT \<in> set (trace (run env_listen_fails signal_and_error))"
    and s: "Quit_sent 154 \<in> set (trace (run env_listen_fails signal_and_error))"
    and m: "main_pc (run env_listen_fails (signal_and_error @ replicate 12 Main))
              = M_returned"
    by code_simp+
  have "kills (trace (run env_listen_fails (signal_and_error @ replicate 12 Main))) = 1"
    using h C2_one_shutdown_sequence[of env_listen_fails signal_and_error] by simp
  moreover have "kills (trace (run env_listen_fails (signal_and_error @ replicate 12 Main)))
                   = 1"
    using m C2_one_shutdown_sequence[of env_listen_fails
              "signal_and_error @ replicate 12 Main"]
    by simp
  ultimately show ?thesis using h n s m by simp
qed


text \<open>
  C5, as the code has it. During startup the message router goroutine calls Publish exactly
  once, when it reaches line 181, on the topic "handshake", after ConnectClient has
  returned and before Subscribe is called. With a router that keeps its contract (Publish
  fails while the client is not connected), a handshake is accepted only after
  ConnectClient has succeeded. The payload is the bytes json.Marshal returned for the value
  GetCanonicalFacts returned, whether or not these two calls succeeded: no error branch
  returns, so it need not be the JSON serialization of a facts snapshot.
\<close>

theorem C5_handshake:
  "filter is_publish (trace (run env evs)) =
     (if 12 \<le> mr_rank (mr_pc (run env evs))
      then [Call_Publish ''handshake'' (the_data env) (publish_result env)] else []) \<and>
   only_after is_connect_client is_publish (trace (run env evs)) \<and>
   (router_contract env \<longrightarrow>
      only_after (\<lambda>a. a = Call_ConnectClient None) is_published (trace (run env evs))) \<and>
   only_after is_publish is_subscribe (trace (run env evs))"
proof -
  have i: "proj By_mr (trace (run env evs)) = mr_hist env (mr_pc (run env evs))"
    using inv_run[of env evs] by (simp add: inv_def mr_inv_def)
  have "filter is_publish (proj By_mr (trace (run env evs))) =
          filter is_publish (trace (run env evs))"
    by (rule filter_proj) (rule is_publish_actor)
  then have a: "filter is_publish (trace (run env evs)) =
     (if 12 \<le> mr_rank (mr_pc (run env evs))
      then [Call_Publish ''handshake'' (the_data env) (publish_result env)] else [])"
    using mr_hist_publish[of env "mr_pc (run env evs)"] by (simp only: i)
  have "only_after is_connect_client is_publish (proj By_mr (trace (run env evs)))"
    unfolding i by (rule mr_hist_connect_publish)
  then have b: "only_after is_connect_client is_publish (trace (run env evs))"
    by (rule only_after_proj[rotated]) (rule publish_actor)
  have c: "router_contract env \<longrightarrow>
      only_after (\<lambda>a. a = Call_ConnectClient None) is_published (trace (run env evs))"
  proof
    assume "router_contract env"
    then have "only_after (\<lambda>a. a = Call_ConnectClient None) is_published
                 (proj By_mr (trace (run env evs)))"
      unfolding i by (rule mr_hist_connected_published)
    then show "only_after (\<lambda>a. a = Call_ConnectClient None) is_published
                 (trace (run env evs))"
      by (rule only_after_proj[rotated]) (rule published_actor)
  qed
  have "only_after is_publish is_subscribe (proj By_mr (trace (run env evs)))"
    unfolding i by (rule mr_hist_publish_subscribe)
  then have d: "only_after is_publish is_subscribe (trace (run env evs))"
    by (rule only_after_proj[rotated]) (rule subscribe_actor)
  show ?thesis using a b c d by simp
qed

theorem C5_witness:
  "router_contract env_ok \<and>
   the_data env_ok = ''<facts>'' \<and>
   filter broker_call (trace (run env_ok until_subscribed)) =
     [Call_ConnectClient None, Call_Publish ''handshake'' ''<facts>'' None,
      Call_Subscribe None] \<and>
   only_after (\<lambda>a. a = Call_ConnectClient None) is_published
     (trace (run env_ok until_subscribed)) \<and>
   router_contract env_broker_down \<and>
   filter is_publish (trace (run env_broker_down broker_down_run)) =
     [Call_Publish ''handshake'' ''<facts>'' (Some ''not connected'')] \<and>
   only_after (\<lambda>a. a = Call_ConnectClient None) is_published
     (trace (run env_broker_down broker_down_run))"
proof -
  have c1: "router_contract env_ok" and c2: "router_contract env_broker_down"
    and r: "12 \<le> mr_rank (mr_pc (run env_broker_down broker_down_run))"
    and d: "the_data env_ok = ''<facts>''" and d2: "the_data env_broker_down = ''<facts>''"
    and p: "publish_result env_broker_down = Some ''not connected''"
    and b: "filter broker_call (trace (run env_ok until_subscribed)) =
     [Call_ConnectClient None, Call_Publish ''handshake'' ''<facts>'' None,
      Call_Subscribe None]"
    by code_simp+
  have o1: "only_after (\<lambda>a. a = Call_ConnectClient None) is_published
     (trace (run env_ok until_subscribed))"
    using c1 C5_handshake[of env_ok until_subscribed] by blast
  have o2: "only_after (\<lambda>a. a = Call_ConnectClient None) is_published
     (trace (run env_broker_down broker_down_run))"
    using c2 C5_handshake[of env_broker_down broker_down_run] by blast
  have f: "filter is_publish (trace (run env_broker_down broker_down_run)) =
     [Call_Publish ''handshake'' ''<facts>'' (Some ''not connected'')]"
    using r d2 p C5_handshake[of env_broker_down broker_down_run] by simp
  show ?thesis using c1 c2 d b o1 o2 f by blast
qed


text \<open>
  The claim as stated (the message sent is the JSON serialization of the facts snapshot)
  fails, with a connected client: when json.Marshal fails, the handshake is published with
  the empty payload Marshal returned; when GetCanonicalFacts fails, there is no snapshot
  and the handshake "null" is published.
\<close>

theorem C5_counterexample:
  "filter broker_call (trace (run env_marshal_fails until_handshake)) =
     [Call_ConnectClient None, Call_Publish ''handshake'' [] None] \<and>
   Call_Marshal ''facts'' [] (Some ''unsupported type'')
     \<in> set (trace (run env_marshal_fails until_handshake)) \<and>
   filter broker_call (trace (run env_facts_fail until_handshake)) =
     [Call_ConnectClient None, Call_Publish ''handshake'' ''null'' None] \<and>
   Call_GetCanonicalFacts [] (Some ''no facts'')
     \<in> set (trace (run env_facts_fail until_handshake)) \<and>
   router_contract env_marshal_fails \<and> router_contract env_facts_fail"
  by code_simp


text \<open>
  C10, as the code has it. An error of ConnectClient does not end the message router
  goroutine: what the goroutine does is always a prefix of its whole body (receive,
  ConnectClient, GetCanonicalFacts, json.Marshal, Publish, Subscribe, each failing call
  followed by the assignment of its error to \<^verbatim>\<open>err\<close> and by a send on \<^verbatim>\<open>quit\<close>), and it
  has ended only when the whole body has run. It goes on whenever it is scheduled, except
  at the receive of line 164 while no signal has arrived and at a send while the buffer of
  \<^verbatim>\<open>quit\<close> is full: the sends block, and a goroutine that is blocked at a send after
  main has received stays there whatever happens later. At most two termination requests
  are delivered in a run, so not every failure gets its request through.
\<close>

theorem C10_no_early_return:
  "prefix (proj By_mr (trace (run env evs))) (mr_script env) \<and>
   (mr_pc (run env evs) = R_end \<longrightarrow> proj By_mr (trace (run env evs)) = mr_script env) \<and>
   (step env MR (run env evs) = None \<longrightarrow>
      mr_pc (run env evs) = R_idle \<or> mr_pc (run env evs) = R_end \<or>
      mr_pc (run env evs) = R164 \<and> boot_chan (run env evs) = 0 \<or>
      blocked_at 168 (run env evs) \<or> blocked_at 174 (run env evs) \<or>
      blocked_at 179 (run env evs) \<or> blocked_at 183 (run env evs) \<or>
      blocked_at 188 (run env evs)) \<and>
   (17 \<le> main_rank (main_pc (run env evs)) \<and> blocked_at line (run env evs) \<longrightarrow>
      blocked_at line (run env (evs @ later))) \<and>
   deliveries (trace (run env evs)) \<le> 2"
proof -
  have i: "proj By_mr (trace (run env evs)) = mr_hist env (mr_pc (run env evs))"
    and l: "mr_local_ok env (mr_pc (run env evs)) (mr_localErr (run env evs))"
    and q: "quit_inv (run env evs)"
    using inv_run[of env evs] by (simp_all add: inv_def mr_inv_def)
  have a: "prefix (proj By_mr (trace (run env evs))) (mr_script env)"
    unfolding i using l by (rule mr_hist_prefix)
  have b: "mr_pc (run env evs) = R_end \<longrightarrow> proj By_mr (trace (run env evs)) = mr_script env"
    using i by simp
  have c: "deliveries (trace (run env evs)) \<le> 2"
    using q by (simp add: quit_inv_def)
  show ?thesis
    using a b c mr_blocked[of env "run env evs"] stays_blocked[of env evs line later]
    by blast
qed

theorem C10_witness:
  "mr_pc (run env_connect_fails (until_handshake @ [MR])) = R_end \<and>
   step env_connect_fails MR (run env_connect_fails (until_handshake @ [MR])) = None \<and>
   proj By_mr (trace (run env_connect_fails (until_handshake @ [MR]))) =
     [Received SignalProcessBootstrap, Call_ConnectClient (Some ''connection refused''),
      Err_assigned 167 (Some ''connection refused''), Quit_sent 168,
      Call_GetCanonicalFacts ''facts'' None, Call_Marshal ''facts'' ''<facts>'' None,
      Call_Publish ''handshake'' ''<facts>'' None, Call_Subscribe None] \<and>
   blocked_at 168 (run env_broker_down interrupted_twice) \<and>
   blocked_at 168 (run env_broker_down (interrupted_twice @ [MR, OS SIGTERM, MR]))"
proof -
  have e: "mr_pc (run env_connect_fails (until_handshake @ [MR])) = R_end"
    and n: "step env_connect_fails MR (run env_connect_fails (until_handshake @ [MR]))
              = None"
    and s: "mr_script env_connect_fails =
     [Received SignalProcessBootstrap, Call_ConnectClient (Some ''connection refused''),
      Err_assigned 167 (Some ''connection refused''), Quit_sent 168,
      Call_GetCanonicalFacts ''facts'' None, Call_Marshal ''facts'' ''<facts>'' None,
      Call_Publish ''handshake'' ''<facts>'' None, Call_Subscribe None]"
    and m: "17 \<le> main_rank (main_pc (run env_broker_down interrupted_twice))"
    and b: "blocked_at 168 (run env_broker_down interrupted_twice)"
    by code_simp+
  have p: "proj By_mr (trace (run env_connect_fails (until_handshake @ [MR]))) =
     [Received SignalProcessBootstrap, Call_ConnectClient (Some ''connection refused''),
      Err_assigned 167 (Some ''connection refused''), Quit_sent 168,
      Call_GetCanonicalFacts ''facts'' None, Call_Marshal ''facts'' ''<facts>'' None,
      Call_Publish ''handshake'' ''<facts>'' None, Call_Subscribe None]"
    using C10_no_early_return[of env_connect_fails "until_handshake @ [MR]"] e s by simp
  have "blocked_at 168 (run env_broker_down (interrupted_twice @ [MR, OS SIGTERM, MR]))"
    using m b
      C10_no_early_return[of env_broker_down interrupted_twice 168 "[MR, OS SIGTERM, MR]"]
    by blast
  then show ?thesis using e n p b by simp
qed


text \<open>
  The claim as stated (after an error of ConnectClient the goroutine still runs the four
  other calls) fails: here main has taken one interrupt, a second one fills the buffer,
  ConnectClient fails, and the goroutine stays in the send of line 168 whatever happens
  next (\<open>blocked_for_ever\<close>); neither GetCanonicalFacts nor any later call runs.
\<close>

theorem C10_counterexample:
  "proj By_mr (trace (run env_broker_down interrupted_twice)) =
     [Received SignalProcessBootstrap, Call_ConnectClient (Some ''connection refused''),
      Err_assigned 167 (Some ''connection refused'')] \<and>
   blocked_at 168 (run env_broker_down interrupted_twice) \<and>
   step env_broker_down MR (run env_broker_down interrupted_twice) = None \<and>
   main_pc (run env_broker_down interrupted_twice) = M_returned"
  by code_simp


text \<open>
  C7, as the code has it. Each component-level error (BootstrapWorkers, ListenAndServe,
  ConnectClient or Subscribe returning an error) makes its goroutine assign the error to
  \<^verbatim>\<open>err\<close> and execute the send of a termination request on \<^verbatim>\<open>quit\<close>. Two steps of the
  goroutine after the error, the request has been sent, or the goroutine stands in the
  send while the buffer holds an earlier request: such a send blocks. In both cases a
  termination request is pending or taken, and five steps of main later the shutdown
  sequence has run: KillAllWorkers has been called exactly once.
\<close>

theorem C7_errors_lead_to_shutdown:
  "(Leave_BootstrapWorkers (Some e) \<in> set (trace (run env evs)) \<longrightarrow>
      Err_assigned 141 (Some e) \<in> set (trace (run env (evs @ [PM, PM]))) \<and>
      answered env evs PM 142) \<and>
   (Leave_ListenAndServe (Some e) \<in> set (trace (run env evs)) \<longrightarrow>
      Err_assigned 153 (Some e) \<in> set (trace (run env (evs @ [Disp, Disp]))) \<and>
      answered env evs Disp 154) \<and>
   (Call_ConnectClient (Some e) \<in> set (trace (run env evs)) \<longrightarrow>
      Err_assigned 167 (Some e) \<in> set (trace (run env (evs @ [MR, MR]))) \<and>
      answered env evs MR 168) \<and>
   (Call_Subscribe (Some e) \<in> set (trace (run env evs)) \<longrightarrow>
      Err_assigned 187 (Some e) \<in> set (trace (run env (evs @ [MR, MR]))) \<and>
      answered env evs MR 188)"
  by (intro conjI impI;
      erule pm_answered disp_answered connect_answered subscribe_answered
        pm_error_assigned disp_error_assigned connect_error_assigned
        subscribe_error_assigned)

theorem C7_witness:
  "Leave_BootstrapWorkers (Some ''worker failed'')
     \<in> set (trace (run env_two_failures two_failures_run)) \<and>
   answered env_two_failures two_failures_run PM 142 \<and>
   Leave_ListenAndServe (Some ''accept failed'')
     \<in> set (trace (run env_two_failures two_failures_run)) \<and>
   answered env_two_failures two_failures_run Disp 154 \<and>
   Call_ConnectClient (Some ''connection refused'')
     \<in> set (trace (run env_broker_down broker_down_run)) \<and>
   answered env_broker_down broker_down_run MR 168 \<and>
   Call_Subscribe (Some ''not connected'')
     \<in> set (trace (run env_broker_down broker_down_run)) \<and>
   answered env_broker_down broker_down_run MR 188"
proof -
  have a: "Leave_BootstrapWorkers (Some ''worker failed'')
     \<in> set (trace (run env_two_failures two_failures_run))"
    and b: "Leave_ListenAndServe (Some ''accept failed'')
     \<in> set (trace (run env_two_failures two_failures_run))"
    and c: "Call_ConnectClient (Some ''connection refused'')
     \<in> set (trace (run env_broker_down broker_down_run))"
    and d: "Call_Subscribe (Some ''not connected'')
     \<in> set (trace (run env_broker_down broker_down_run))"
    by code_simp+
  show ?thesis
    using a b c d
      C7_errors_lead_to_shutdown[of "''worker failed''" env_two_failures two_failures_run]
      C7_errors_lead_to_shutdown[of "''accept failed''" env_two_failures two_failures_run]
      C7_errors_lead_to_shutdown[of "''connection refused''" env_broker_down broker_down_run]
      C7_errors_lead_to_shutdown[of "''not connected''" env_broker_down broker_down_run]
    by blast
qed


text \<open>
  The claim as stated (each such error sends a termination request) fails: with the broker
  down, ConnectClient, Publish and Subscribe fail in turn. The requests of the first two
  are delivered, main takes the first one and returns, and the send for the error of
  Subscribe finds the buffer full: its request is never sent (\<open>blocked_for_ever\<close>).
\<close>

theorem C7_counterexample:
  "Call_Subscribe (Some ''not connected'')
     \<in> set (trace (run env_broker_down broker_down_run)) \<and>
   Quit_sent 188 \<notin> set (trace (run env_broker_down broker_down_run)) \<and>
   blocked_at 188 (run env_broker_down broker_down_run) \<and>
   step env_broker_down MR (run env_broker_down broker_down_run) = None \<and>
   deliveries (trace (run env_broker_down broker_down_run)) = 2 \<and>
   main_pc (run env_broker_down broker_down_run) = M_returned"
  by code_simp


text \<open>
  C1, as the code has it. The last error wins, not the first: \<^verbatim>\<open>err\<close> is a plain shared
  variable that every error branch overwrites. From the end of startup to line 198 it
  holds the error written last by any goroutine. What the Action returns after the
  shutdown is the error of KillAllWorkers if that call failed, and otherwise the value of
  \<^verbatim>\<open>err\<close> when line 198 reads it: the error written last before the return, nil if none
  was written.
\<close>

theorem C1_last_error_reported:
  "(6 \<le> main_rank (main_pc (run env evs)) \<and> main_rank (main_pc (run env evs)) \<le> 18 \<longrightarrow>
      err (run env evs) = last_assigned (trace (run env evs))) \<and>
   (main_pc (run env evs) = M_returned \<longrightarrow>
      ret (run env evs) = Some (reported env (trace (run env evs))))"
  using inv_run[of env evs] by (simp add: inv_def err_inv_def)

theorem C1_witness:
  "main_pc (run env_two_failures two_failures_pending) = M198 \<and>
   err (run env_two_failures two_failures_pending) = Some ''worker failed'' \<and>
   main_pc (run env_two_failures two_failures_run) = M_returned \<and>
   assigned (trace (run env_two_failures two_failures_run)) =
     [Some ''accept failed'', Some ''worker failed''] \<and>
   ret (run env_two_failures two_failures_run) = Some (Some ''worker failed'')"
proof -
  have a: "main_pc (run env_two_failures two_failures_pending) = M198"
    and b: "last_assigned (trace (run env_two_failures two_failures_pending))
              = Some ''worker failed''"
    and c: "main_pc (run env_two_failures two_failures_run) = M_returned"
    and d: "assigned (trace (run env_two_failures two_failures_run)) =
     [Some ''accept failed'', Some ''worker failed'']"
    and e: "reported env_two_failures (trace (run env_two_failures two_failures_run)) =
     Some ''worker failed''"
    by code_simp+
  have "err (run env_two_failures two_failures_pending) = Some ''worker failed''"
    using a b C1_last_error_reported[of env_two_failures two_failures_pending] by simp
  moreover have "ret (run env_two_failures two_failures_run) = Some (Some ''worker failed'')"
    using c e C1_last_error_reported[of env_two_failures two_failures_run] by simp
  ultimately show ?thesis using a c d by simp
qed


text \<open>
  The claim as stated (the first fatal error is the one reported, later ones do not
  overwrite it) fails: ListenAndServe fails first and BootstrapWorkers second, both before
  main reads \<^verbatim>\<open>err\<close>; the Action returns the second error.
\<close>

theorem C1_counterexample:
  "first_assigned (trace (run env_two_failures two_failures_run)) = Some ''accept failed'' \<and>
   ret (run env_two_failures two_failures_run) = Some (Some ''worker failed'') \<and>
   main_pc (run env_two_failures two_failures_run) = M_returned"
  by code_simp


text \<open>
  C6, as the code has it. When the Action returns after the shutdown, it returns the error
  of KillAllWorkers if that call failed and otherwise the error written to \<^verbatim>\<open>err\<close> last
  (not necessarily the first fatal error). The exit status is zero exactly when
  KillAllWorkers succeeded and no goroutine had written \<^verbatim>\<open>err\<close>, as after an interrupt
  with no fatal error; it is non-zero whenever a goroutine had sent its termination
  request, for every send follows the write of a non-nil error.
\<close>

theorem C6_exit_status:
  "main_pc (run env evs) = M_returned \<longrightarrow>
     ret (run env evs) = Some (reported env (trace (run env evs))) \<and>
     exit_status (run env evs) =
       Some (if KillAllWorkers env = None \<and>
                assigned (before_return (trace (run env evs))) = [] then 0 else 1) \<and>
     (list_ex is_sent (before_return (trace (run env evs))) \<longrightarrow>
        exit_status (run env evs) = Some 1)"
proof
  let ?s = "run env evs"
  assume m: "main_pc ?s = M_returned"
  have e: "err_inv env ?s" and n: "sent_inv ?s"
    using inv_run[of env evs] by (simp_all add: inv_def)
  have r: "ret ?s = Some (reported env (trace ?s))"
    using e m by (simp add: err_inv_def)
  have x: "exit_status ?s =
       Some (if KillAllWorkers env = None \<and> assigned (before_return (trace ?s)) = []
             then 0 else 1)"
    using exit_status_ret[OF r] reported_none[OF n, of env] by simp
  have "list_ex is_sent (before_return (trace ?s)) \<longrightarrow> exit_status ?s = Some 1"
  proof
    assume "list_ex is_sent (before_return (trace ?s))"
    moreover have "only_after is_assign is_sent (before_return (trace ?s))"
      using n by (simp add: sent_inv_def only_after_before_return)
    ultimately have "assigned (before_return (trace ?s)) \<noteq> []"
      using sent_needs_assign by blast
    then show "exit_status ?s = Some 1" using x by simp
  qed
  then show "ret ?s = Some (reported env (trace ?s)) \<and>
     exit_status ?s =
       Some (if KillAllWorkers env = None \<and> assigned (before_return (trace ?s)) = []
             then 0 else 1) \<and>
     (list_ex is_sent (before_return (trace ?s)) \<longrightarrow> exit_status ?s = Some 1)"
    using r x by simp
qed

theorem C6_witness:
  "main_pc (run env_ok clean_stop) = M_returned \<and>
   Quit_received SIGTERM \<in> set (trace (run env_ok clean_stop)) \<and>
   exit_status (run env_ok clean_stop) = Some 0 \<and>
   main_pc (run env_bootstrap_and_connect_fail bootstrap_and_connect_run) = M_returned \<and>
   list_ex is_sent
     (before_return (trace (run env_bootstrap_and_connect_fail bootstrap_and_connect_run))) \<and>
   exit_status (run env_bootstrap_and_connect_fail bootstrap_and_connect_run) = Some 1"
proof -
  have a: "main_pc (run env_ok clean_stop) = M_returned"
    and b: "Quit_received SIGTERM \<in> set (trace (run env_ok clean_stop))"
    and c: "KillAllWorkers env_ok = None"
    and d: "assigned (before_return (trace (run env_ok clean_stop))) = []"
    and e: "main_pc (run env_bootstrap_and_connect_fail bootstrap_and_connect_run)
              = M_returned"
    and f: "list_ex is_sent
     (before_return (trace (run env_bootstrap_and_connect_fail bootstrap_and_connect_run)))"
    by code_simp+
  have g: "exit_status (run env_ok clean_stop) = Some 0"
    using C6_exit_status[of env_ok clean_stop] a c d by simp
  have h: "exit_status (run env_bootstrap_and_connect_fail bootstrap_and_connect_run)
             = Some 1"
    using C6_exit_status[of env_bootstrap_and_connect_fail bootstrap_and_connect_run] e f
    by blast
  show ?thesis using a b e f g h by blast
qed


text \<open>
  The claim as stated (the first fatal error's cause is reported) fails: BootstrapWorkers
  fails and triggers the shutdown, ConnectClient fails before main reads \<^verbatim>\<open>err\<close>, and the
  Action reports the error of ConnectClient.
\<close>

theorem C6_counterexample:
  "list_ex is_sent
     (before_return (trace (run env_bootstrap_and_connect_fail bootstrap_and_connect_run))) \<and>
   first_assigned (trace (run env_bootstrap_and_connect_fail bootstrap_and_connect_run))
     = Some ''worker failed'' \<and>
   ret (run env_bootstrap_and_connect_fail bootstrap_and_connect_run)
     = Some (Some ''connection refused'') \<and>
   exit_status (run env_bootstrap_and_connect_fail bootstrap_and_connect_run) = Some 1"
  by code_simp


text \<open>
  C8. The subscription to process-bootstrap is not made before the first publish of the
  signal can occur. The Connect of line 159 comes after the \<^verbatim>\<open>go\<close> statements of lines
  132 and 147, so the dispatcher and the process manager goroutines can run before it:
  here BootstrapWorkers publishes process-bootstrap while the signal has no subscriber,
  the value is dropped, and the message router goroutine, started afterwards, waits at
  line 164 on an empty channel although the process manager goroutine has ended, and does
  so whatever happens next (\<open>starved_for_ever\<close>). The
  listen-ready signal cannot be lost in this way, its Connect (line 131) precedes the
  \<^verbatim>\<open>go\<close> statement of line 147 (\<open>listen_signal_never_dropped\<close>).
\<close>

theorem C8_bootstrap_signal_dropped:
  "Published SignalProcessBootstrap False \<in> set (trace (run env_ok race_run)) \<and>
   \<not> only_after (\<lambda>a. a = Connected SignalProcessBootstrap) is_bootstrap_published
       (trace (run env_ok race_run)) \<and>
   pm_pc (run env_ok race_run) = P_end \<and>
   boot_chan (run env_ok race_run) = 0 \<and>
   mr_pc (run env_ok race_run) = R164 \<and>
   step env_ok MR (run env_ok race_run) = None \<and>
   starved (run env_ok race_run)"
  by code_simp


end
